theory Spec2Isabelle
  imports Complex_Main "HOL-Library.Sublist" "HOL-Library.AList"
begin

unbundle bit_operations_syntax

section \<open>The custom API registry (packages/ai/src/api-registry.ts)\<close>

text \<open>
  \<^verbatim>\<open>interface RegisteredCustomApi { streamSimple: CustomStreamSimpleFn; sourceId?: string }\<close>
  The streaming function is opaque here, so its type is a parameter. An absent
  \<^verbatim>\<open>sourceId\<close> is \<open>None\<close>.
\<close>

record 'f RegisteredCustomApi =
  streamSimple :: 'f
  sourceId :: "string option"

text \<open>
  \<^verbatim>\<open>const customApiRegistry = new Map<string, RegisteredCustomApi>()\<close>
  A JavaScript Map keeps its entries in insertion order and \<^verbatim>\<open>set\<close> on an existing
  key replaces the value in place: an association list with \<open>AList.update\<close>.
  The module-level table is passed in and returned.
\<close>

type_synonym 'f customApiRegistry = "(string \<times> 'f RegisteredCustomApi) list"

definition registerCustomApi ::
  "string \<Rightarrow> 'f \<Rightarrow> string option \<Rightarrow> 'f customApiRegistry \<Rightarrow> 'f customApiRegistry" where
  "registerCustomApi api f sid reg =
     AList.update api \<lparr>streamSimple = f, sourceId = sid\<rparr> reg"

definition getCustomApi :: "string \<Rightarrow> 'f customApiRegistry \<Rightarrow> 'f option" where
  "getCustomApi api reg = map_option streamSimple (map_of reg api)"

text \<open>
  \<^verbatim>\<open>for (const [api, entry] of customApiRegistry.entries())
    if (entry.sourceId === sourceId) customApiRegistry.delete(api);\<close>
  The loop visits every entry once; deleting the current key does not disturb the
  others.
\<close>

definition unregisterStep ::
  "string \<Rightarrow> string \<times> 'f RegisteredCustomApi \<Rightarrow> 'f customApiRegistry \<Rightarrow> 'f customApiRegistry" where
  "unregisterStep sid kv reg =
     (if sourceId (snd kv) = Some sid then AList.delete (fst kv) reg else reg)"

definition unregisterCustomApis :: "string \<Rightarrow> 'f customApiRegistry \<Rightarrow> 'f customApiRegistry" where
  "unregisterCustomApis sid reg = fold (unregisterStep sid) reg reg"

definition clearCustomApis :: "'f customApiRegistry \<Rightarrow> 'f customApiRegistry" where
  "clearCustomApis reg = []"

text \<open>A Map has one entry per key; every table built by the operations has.\<close>

definition wfRegistry :: "'f customApiRegistry \<Rightarrow> bool" where
  "wfRegistry reg = distinct (map fst reg)"

section \<open>Snowflake identifiers (packages/utils/src/snowflake.ts)\<close>

text \<open>
  A generator holds its epoch (a bigint) and the private counter \<^verbatim>\<open>#seq\<close>. The
  counter only ever passes through \<^verbatim>\<open>& 0x3fffff\<close>; on integers that mask keeps the
  low 22 bits whatever the 32-bit conversion of the operand did, so it is written
  on \<open>int\<close>.
\<close>

record Source =
  epoch :: int
  seq :: int

text \<open>
  \<^verbatim>\<open>value.toString(16).padStart(16, "0")\<close>: the digits of a bigint in base 16,
  lowercase, most significant first, with a minus sign for a negative value; then
  zeros on the left up to 16 characters (a longer string is left as it is).
\<close>

definition hexDigit :: "nat \<Rightarrow> char" where
  "hexDigit d = ''0123456789abcdef'' ! d"

fun hexDigits :: "nat \<Rightarrow> string" where
  "hexDigits n = (if n < 16 then [hexDigit n] else hexDigits (n div 16) @ [hexDigit (n mod 16)])"

declare hexDigits.simps [simp del]

definition toString16 :: "int \<Rightarrow> string" where
  "toString16 v = (if v < 0 then CHR ''-'' # hexDigits (nat (- v)) else hexDigits (nat v))"

definition padStart :: "nat \<Rightarrow> char \<Rightarrow> string \<Rightarrow> string" where
  "padStart n c s = replicate (n - length s) c @ s"

definition toHex :: "int \<Rightarrow> string" where
  "toHex v = padStart 16 CHR ''0'' (toString16 v)"

text \<open>\<^verbatim>\<open>PATTERN = /^[0-9a-f]{16}$/\<close>, by character codes: 48..57 and 97..102.\<close>

definition isHexLower :: "char \<Rightarrow> bool" where
  "isHexLower c = ((48 \<le> (of_char c :: nat) \<and> (of_char c :: nat) \<le> 57)
                 \<or> (97 \<le> (of_char c :: nat) \<and> (of_char c :: nat) \<le> 102))"

definition valid :: "string \<Rightarrow> bool" where
  "valid v = (length v = 16 \<and> list_all isHexLower v)"

text \<open>
  \<^verbatim>\<open>toBigInt\<close> reads the two halves with \<^verbatim>\<open>Number.parseInt(_, 16)\<close> and joins them
  with \<^verbatim>\<open>(highBits << 32n) | lowBits\<close>. On a string of the pattern parseInt
  reads every character as a digit; its treatment of signs, prefixes and trailing
  characters concerns other strings only, for which the model answers \<open>None\<close>.
\<close>

definition digitValue :: "char \<Rightarrow> nat" where
  "digitValue c = (if (of_char c :: nat) \<le> 57 then of_char c - 48 else of_char c - 87)"

definition parseHex :: "string \<Rightarrow> int" where
  "parseHex s = foldl (\<lambda>acc c. acc * 16 + int (digitValue c)) 0 s"

definition toBigInt :: "string \<Rightarrow> int option" where
  "toBigInt v =
     (if valid v
      then Some (push_bit 32 (parseHex (take 8 v)) OR parseHex (drop 8 (take 16 v)))
      else None)"

text \<open>
  \<^verbatim>\<open>next(timestamp) { const seq = (this.#seq + 1) & 0x3fffff; this.#seq = seq;
    const value = BigInt(seq) | ((BigInt(timestamp) - this.epoch) << 22n);
    return toHex(value); }\<close>
  The updated generator is returned with the identifier.
\<close>

definition Source_next :: "Source \<Rightarrow> int \<Rightarrow> string \<times> Source" where
  "Source_next src timestamp =
     (let s = (seq src + 1) AND 0x3fffff;
          v = s OR push_bit 22 (timestamp - epoch src)
      in (toHex v, src\<lparr>seq := s\<rparr>))"

text \<open>
  \<^verbatim>\<open>lowerbound\<close> and \<^verbatim>\<open>upperbound\<close> switch on the type of their argument: a Date
  falls through to the number case with its time in milliseconds, a string is
  returned as it is.
\<close>

datatype timelike = Date int | Millis int | SnowflakeId string

fun lowerbound :: "timelike \<Rightarrow> Source \<Rightarrow> string" where
  "lowerbound (Date ms) source = toHex (0x000000 OR push_bit 22 (ms - epoch source))"
| "lowerbound (Millis ms) source = toHex (0x000000 OR push_bit 22 (ms - epoch source))"
| "lowerbound (SnowflakeId s) source = s"

fun upperbound :: "timelike \<Rightarrow> Source \<Rightarrow> string" where
  "upperbound (Date ms) source = toHex (0x3fffff OR push_bit 22 (ms - epoch source))"
| "upperbound (Millis ms) source = toHex (0x3fffff OR push_bit 22 (ms - epoch source))"
| "upperbound (SnowflakeId s) source = s"

text \<open>
  The order of JavaScript strings (\<^verbatim>\<open>a <= b\<close>): by code units, left to right,
  a proper prefix first.
\<close>

fun strLe :: "string \<Rightarrow> string \<Rightarrow> bool" where
  "strLe [] ys = True"
| "strLe (x # xs) [] = False"
| "strLe (x # xs) (y # ys) = ((of_char x :: nat) < of_char y \<or> (x = y \<and> strLe xs ys))"

section \<open>The edit tool (packages/coding-agent/src/core/tools/edit.ts)\<close>

subsection \<open>What \<open>execute\<close> receives from other modules\<close>

text \<open>
  The values \<^verbatim>\<open>findEditMatch\<close> returns, as far as \<^verbatim>\<open>execute\<close> reads them: of a
  match its \<^verbatim>\<open>startIndex\<close>, \<^verbatim>\<open>actualText\<close> and \<^verbatim>\<open>confidence\<close>; of an outcome
  \<^verbatim>\<open>match\<close>, \<^verbatim>\<open>closest\<close>, \<^verbatim>\<open>occurrences\<close> and \<^verbatim>\<open>fuzzyMatches\<close>, each possibly
  undefined. A confidence is compared with the threshold and nothing else, so a
  rational stands for the number.
\<close>

record EditMatch =
  actualText :: string
  startIndex :: nat
  confidence :: rat

record EditMatchOutcome =
  match :: "EditMatch option"
  closest :: "EditMatch option"
  occurrences :: "nat option"
  fuzzyMatches :: "nat option"

record diffResult =
  diff :: string
  firstChangedLine :: "nat option"

text \<open>
  The module \<^verbatim>\<open>./edit-diff\<close> is imported by \<^verbatim>\<open>edit.ts\<close> and its file is
  missing from the sources, so \<^verbatim>\<open>execute\<close> takes the module as a value: one
  field for each imported name, and what is proved of \<^verbatim>\<open>execute\<close> for every
  such value holds for the module as it is. The line-ending value goes from
  \<^verbatim>\<open>detectLineEnding\<close> to \<^verbatim>\<open>restoreLineEndings\<close> unread, so its type is a
  parameter. In the same way \<^verbatim>\<open>resolveToCwd\<close> (from \<^verbatim>\<open>./path-utils\<close>) and
  the writethrough callback are arguments of \<^verbatim>\<open>execute\<close>.
\<close>

record 'e editDiff =
  DEFAULT_FUZZY_THRESHOLD :: rat
  stripBom :: "string \<Rightarrow> string \<times> string"
  detectLineEnding :: "string \<Rightarrow> 'e"
  normalizeToLF :: "string \<Rightarrow> string"
  restoreLineEndings :: "string \<Rightarrow> 'e \<Rightarrow> string"
  findEditMatch :: "string \<Rightarrow> string \<Rightarrow> bool \<Rightarrow> rat \<Rightarrow> EditMatchOutcome"
  generateDiffString :: "string \<Rightarrow> string \<Rightarrow> diffResult"

record FileDiagnosticsResult =
  messages :: "string list"
  summary :: string

text \<open>
  The file system is a map from absolute paths to contents. \<^verbatim>\<open>execute\<close> reaches it
  through \<^verbatim>\<open>Bun.file(p).exists()\<close>, \<^verbatim>\<open>.text()\<close> and the writethrough callback, the
  only writer; the callback returns diagnostics or nothing, or throws (\<open>Inl\<close>).
  Every call that leaves \<^verbatim>\<open>execute\<close> is recorded in a trace, in order.
\<close>

type_synonym fileSystem = "string \<rightharpoonup> string"

type_synonym writethroughCallback =
  "string \<Rightarrow> string \<Rightarrow> fileSystem \<Rightarrow> (string + FileDiagnosticsResult option) \<times> fileSystem"

datatype event =
    Resolve string string
  | Exists string
  | ReadText string
  | Writethrough string string

record world =
  disk :: fileSystem
  trace :: "event list"

definition logged :: "event list \<Rightarrow> world \<Rightarrow> world" where
  "logged evs w = w\<lparr>trace := trace w @ evs\<rparr>"

record editArgs =
  path :: string
  oldText :: string
  newText :: string
  all :: "bool option"

record EditToolOptions =
  fuzzyMatch :: "bool option"
  writethrough :: "writethroughCallback option"

record EditToolDetails = diffResult +
  diagnostics :: "FileDiagnosticsResult option"

record toolResult =
  resultText :: string
  details :: EditToolDetails

text \<open>
  One constructor for each \<^verbatim>\<open>throw\<close> of \<^verbatim>\<open>execute\<close>, named as section 7 of the
  specification names the failure, carrying the message; \<open>NoMatch\<close> is
  \<^verbatim>\<open>new EditMatchError(path, normalizedOldText, closest,
  {allowFuzzy, similarityThreshold, fuzzyMatches})\<close> with its arguments, and
  \<open>CollaboratorFailure\<close> is whatever the writethrough callback threw.
\<close>

datatype editError =
    UnsupportedFormat string
  | NotFound string
  | AmbiguousMatch string
  | NoMatch string string "EditMatch option" bool rat "nat option"
  | NoEffectiveChange string
  | CollaboratorFailure string

subsection \<open>Strings as JavaScript has them\<close>

text \<open>A number in a template literal: its decimal digits.\<close>

fun decimal :: "nat \<Rightarrow> string" where
  "decimal n =
     (if n < 10 then [''0123456789'' ! n] else decimal (n div 10) @ [''0123456789'' ! (n mod 10)])"

declare decimal.simps [simp del]

definition endsWith :: "string \<Rightarrow> string \<Rightarrow> bool" where
  "endsWith s searchString = suffix searchString s"

text \<open>
  \<^verbatim>\<open>s.split(sep)\<close> with a string separator: the pieces between the occurrences of
  \<open>sep\<close>, found from the left without overlap. With the empty separator the
  pieces are the single characters, and none for the empty string.
\<close>

function splitOn :: "string \<Rightarrow> string \<Rightarrow> string \<Rightarrow> string list" where
  "splitOn sep acc s =
     (if s = [] then [rev acc]
      else if sep \<noteq> [] \<and> prefix sep s then rev acc # splitOn sep [] (drop (length sep) s)
      else splitOn sep (hd s # acc) (tl s))"
  by pat_completeness auto
termination
  by (relation "measure (\<lambda>(sep, acc, s). length s)") auto

declare splitOn.simps [simp del]

definition jsSplit :: "string \<Rightarrow> string \<Rightarrow> string list" where
  "jsSplit s sep = (if sep = [] then map (\<lambda>c. [c]) s else splitOn sep [] s)"

fun jsJoin :: "string list \<Rightarrow> string \<Rightarrow> string" where
  "jsJoin [] sep = []"
| "jsJoin [x] sep = x"
| "jsJoin (x # y # ys) sep = x @ sep @ jsJoin (y # ys) sep"

text \<open>
  \<^verbatim>\<open>content.substring(0, m.startIndex) + newText +
  content.substring(m.startIndex + m.actualText.length)\<close>; \<^verbatim>\<open>substring\<close> clamps its
  bounds to the string, as \<open>take\<close> and \<open>drop\<close> do.
\<close>

definition splice :: "string \<Rightarrow> EditMatch \<Rightarrow> string \<Rightarrow> string" where
  "splice content m new =
     take (startIndex m) content @ new @ drop (startIndex m + length (actualText m)) content"

subsection \<open>The messages\<close>

definition notebookMessage :: string where
  "notebookMessage =
     ''Cannot edit Jupyter notebooks with the Edit tool. Use the NotebookEdit tool instead.''"

definition notFoundMessage :: "string \<Rightarrow> string" where
  "notFoundMessage p = ''File not found: '' @ p"

definition ambiguousMessage :: "nat \<Rightarrow> string \<Rightarrow> string" where
  "ambiguousMessage n p =
     ''Found '' @ decimal n @ '' occurrences of the text in '' @ p
     @ ''. The text must be unique. Please provide more context to make it unique, ''
     @ ''or use all: true to replace all.''"

definition noChangeMessage :: "string \<Rightarrow> string" where
  "noChangeMessage p =
     ''No changes made to '' @ p @ ''. The replacement produced identical content. ''
     @ ''This might indicate an issue with special characters or the text not existing ''
     @ ''as expected.''"

definition buildResultText :: "nat \<Rightarrow> string \<Rightarrow> FileDiagnosticsResult option \<Rightarrow> string" where
  "buildResultText replacementCount p dg =
     (let base =
        (if 1 < replacementCount
         then ''Successfully replaced '' @ decimal replacementCount @ '' occurrences in '' @ p @ ''.''
         else ''Successfully replaced text in '' @ p @ ''.'')
      in case dg of
           None \<Rightarrow> base
         | Some d \<Rightarrow>
             if messages d \<noteq> []
             then base @ [CHR 0x0A, CHR 0x0A] @ ''LSP Diagnostics ('' @ summary d @ ''):''
               @ [CHR 0x0A] @ jsJoin (map (\<lambda>m. ''  '' @ m) (messages d)) [CHR 0x0A]
             else base)"

subsection \<open>The replacement (lines 77 to 149)\<close>

text \<open>
  The match used in replace-all mode:
  \<^verbatim>\<open>matchOutcome.match || (allowFuzzy && matchOutcome.closest &&
     matchOutcome.closest.confidence >= DEFAULT_FUZZY_THRESHOLD
       ? matchOutcome.closest : undefined)\<close>
\<close>

definition allModeMatch :: "'e editDiff \<Rightarrow> bool \<Rightarrow> EditMatchOutcome \<Rightarrow> EditMatch option" where
  "allModeMatch ed allowFuzzy matchOutcome =
     (case match matchOutcome of
        Some m \<Rightarrow> Some m
      | None \<Rightarrow>
          (case closest matchOutcome of
             Some c \<Rightarrow>
               if allowFuzzy \<and> DEFAULT_FUZZY_THRESHOLD ed \<le> confidence c then Some c else None
           | None \<Rightarrow> None))"

text \<open>
  \<^verbatim>\<open>new EditMatchError(path, normalizedOldText, matchOutcome.closest,
     {allowFuzzy, similarityThreshold: DEFAULT_FUZZY_THRESHOLD,
      fuzzyMatches: matchOutcome.fuzzyMatches})\<close>, thrown at lines 106 and 136.
\<close>

definition editMatchError ::
  "'e editDiff \<Rightarrow> bool \<Rightarrow> string \<Rightarrow> string \<Rightarrow> EditMatchOutcome \<Rightarrow> editError" where
  "editMatchError ed allowFuzzy p normalizedOldText matchOutcome =
     NoMatch p normalizedOldText (closest matchOutcome) allowFuzzy
       (DEFAULT_FUZZY_THRESHOLD ed) (fuzzyMatches matchOutcome)"

text \<open>
  The \<^verbatim>\<open>while (true)\<close> loop of lines 91 to 120. Its state is the content so far
  and the number of replacements; it leaves by \<^verbatim>\<open>throw\<close> or \<^verbatim>\<open>break\<close> when no
  match is found, and nothing else ends it: a run that never ends is \<open>None\<close>.
\<close>

partial_function (option) fuzzyLoop ::
  "'e editDiff \<Rightarrow> bool \<Rightarrow> string \<Rightarrow> string \<Rightarrow> string \<Rightarrow> string \<Rightarrow> nat
     \<Rightarrow> (editError + string \<times> nat) option" where
  "fuzzyLoop ed allowFuzzy p normalizedOldText normalizedNewText normalizedNewContent
       replacementCount =
     (let matchOutcome =
        findEditMatch ed normalizedNewContent normalizedOldText allowFuzzy
          (DEFAULT_FUZZY_THRESHOLD ed)
      in case allModeMatch ed allowFuzzy matchOutcome of
        None \<Rightarrow>
          if replacementCount = 0
          then Some (Inl (editMatchError ed allowFuzzy p normalizedOldText matchOutcome))
          else Some (Inr (normalizedNewContent, replacementCount))
      | Some m \<Rightarrow>
          fuzzyLoop ed allowFuzzy p normalizedOldText normalizedNewText
            (splice normalizedNewContent m normalizedNewText) (replacementCount + 1))"

declare fuzzyLoop.simps [code]

definition exactCount :: "string \<Rightarrow> string \<Rightarrow> int" where
  "exactCount normalizedContent normalizedOldText =
     int (length (jsSplit normalizedContent normalizedOldText)) - 1"

definition replaceAllMode ::
  "'e editDiff \<Rightarrow> bool \<Rightarrow> string \<Rightarrow> string \<Rightarrow> string \<Rightarrow> string
     \<Rightarrow> (editError + string \<times> nat) option" where
  "replaceAllMode ed allowFuzzy p normalizedContent normalizedOldText normalizedNewText =
     (if 0 < exactCount normalizedContent normalizedOldText
      then Some (Inr (jsJoin (jsSplit normalizedContent normalizedOldText) normalizedNewText,
                      nat (exactCount normalizedContent normalizedOldText)))
      else fuzzyLoop ed allowFuzzy p normalizedOldText normalizedNewText normalizedContent 0)"

text \<open>
  Single mode, lines 135 to 148: without a match \<^verbatim>\<open>EditMatchError\<close> is thrown, with
  one the span is cut out and the new text put in.
\<close>

definition requireMatch ::
  "'e editDiff \<Rightarrow> bool \<Rightarrow> string \<Rightarrow> string \<Rightarrow> string \<Rightarrow> string \<Rightarrow> EditMatchOutcome
     \<Rightarrow> editError + string \<times> nat" where
  "requireMatch ed allowFuzzy p normalizedContent normalizedOldText normalizedNewText
       matchOutcome =
     (case match matchOutcome of
        None \<Rightarrow> Inl (editMatchError ed allowFuzzy p normalizedOldText matchOutcome)
      | Some m \<Rightarrow> Inr (splice normalizedContent m normalizedNewText, 1))"

text \<open>
  Single mode, lines 124 to 133:
  \<^verbatim>\<open>if (matchOutcome.occurrences && matchOutcome.occurrences > 1) throw new Error(...)\<close>
\<close>

definition replaceSingleMode ::
  "'e editDiff \<Rightarrow> bool \<Rightarrow> string \<Rightarrow> string \<Rightarrow> string \<Rightarrow> string
     \<Rightarrow> editError + string \<times> nat" where
  "replaceSingleMode ed allowFuzzy p normalizedContent normalizedOldText normalizedNewText =
     (let matchOutcome =
        findEditMatch ed normalizedContent normalizedOldText allowFuzzy
          (DEFAULT_FUZZY_THRESHOLD ed)
      in case occurrences matchOutcome of
           None \<Rightarrow>
             requireMatch ed allowFuzzy p normalizedContent normalizedOldText normalizedNewText
               matchOutcome
         | Some n \<Rightarrow>
             if 1 < n then Inl (AmbiguousMatch (ambiguousMessage n p))
             else requireMatch ed allowFuzzy p normalizedContent normalizedOldText
                    normalizedNewText matchOutcome)"

definition replaceStage ::
  "'e editDiff \<Rightarrow> bool \<Rightarrow> string \<Rightarrow> bool option \<Rightarrow> string \<Rightarrow> string \<Rightarrow> string
     \<Rightarrow> (editError + string \<times> nat) option" where
  "replaceStage ed allowFuzzy p allFlag normalizedContent normalizedOldText normalizedNewText =
     (if allFlag = Some True
      then replaceAllMode ed allowFuzzy p normalizedContent normalizedOldText normalizedNewText
      else Some (replaceSingleMode ed allowFuzzy p normalizedContent normalizedOldText
                   normalizedNewText))"

subsection \<open>The whole of \<open>execute\<close> (lines 55 to 188)\<close>

text \<open>
  Lines 158 to 187: the final content is handed to the writethrough callback, and
  the result is built from its diagnostics and the diff.
\<close>

definition writeAndReport ::
  "'e editDiff \<Rightarrow> writethroughCallback \<Rightarrow> string \<Rightarrow> string \<Rightarrow> string \<Rightarrow> 'e \<Rightarrow> string
     \<Rightarrow> string \<Rightarrow> nat \<Rightarrow> world \<Rightarrow> (editError + toolResult) \<times> world" where
  "writeAndReport ed wt p absolutePath bom originalEnding normalizedContent
       normalizedNewContent replacementCount w =
     (let finalContent = bom @ restoreLineEndings ed normalizedNewContent originalEnding;
          (answer, disk') = wt absolutePath finalContent (disk w);
          w' = \<lparr>disk = disk', trace = trace w @ [Writethrough absolutePath finalContent]\<rparr>
      in case answer of
           Inl thrown \<Rightarrow> (Inl (CollaboratorFailure thrown), w')
         | Inr dg \<Rightarrow>
             (let diffResult = generateDiffString ed normalizedContent normalizedNewContent
              in (Inr \<lparr>resultText = buildResultText replacementCount p dg,
                       details = \<lparr>diff = diff diffResult,
                                  firstChangedLine = firstChangedLine diffResult,
                                  diagnostics = dg\<rparr>\<rparr>, w')))"

text \<open>Lines 151 to 156: \<^verbatim>\<open>if (normalizedContent === normalizedNewContent) throw\<close>.\<close>

definition finishEdit ::
  "'e editDiff \<Rightarrow> writethroughCallback \<Rightarrow> string \<Rightarrow> string \<Rightarrow> string \<Rightarrow> 'e \<Rightarrow> string
     \<Rightarrow> string \<Rightarrow> nat \<Rightarrow> world \<Rightarrow> (editError + toolResult) \<times> world" where
  "finishEdit ed wt p absolutePath bom originalEnding normalizedContent normalizedNewContent
       replacementCount w =
     (if normalizedContent = normalizedNewContent
      then (Inl (NoEffectiveChange (noChangeMessage p)), w)
      else writeAndReport ed wt p absolutePath bom originalEnding normalizedContent
             normalizedNewContent replacementCount w)"

definition execute ::
  "'e editDiff \<Rightarrow> (string \<Rightarrow> string \<Rightarrow> string) \<Rightarrow> writethroughCallback \<Rightarrow> string \<Rightarrow> bool
     \<Rightarrow> editArgs \<Rightarrow> world \<Rightarrow> ((editError + toolResult) \<times> world) option" where
  "execute ed resolveToCwd wt cwd allowFuzzy args w =
     (if endsWith (path args) ''.ipynb''
      then Some (Inl (UnsupportedFormat notebookMessage), w)
      else
        (let absolutePath = resolveToCwd (path args) cwd;
             w1 = logged [Resolve (path args) cwd, Exists absolutePath] w
         in case disk w absolutePath of
              None \<Rightarrow> Some (Inl (NotFound (notFoundMessage (path args))), w1)
            | Some rawContent \<Rightarrow>
                (let w2 = logged [ReadText absolutePath] w1;
                     (bom, content) = stripBom ed rawContent;
                     originalEnding = detectLineEnding ed content;
                     normalizedContent = normalizeToLF ed content;
                     normalizedOldText = normalizeToLF ed (oldText args);
                     normalizedNewText = normalizeToLF ed (newText args)
                 in case replaceStage ed allowFuzzy (path args) (all args) normalizedContent
                           normalizedOldText normalizedNewText of
                      None \<Rightarrow> None
                    | Some (Inl e) \<Rightarrow> Some (Inl e, w2)
                    | Some (Inr (normalizedNewContent, replacementCount)) \<Rightarrow>
                        Some (finishEdit ed wt (path args) absolutePath bom originalEnding
                                normalizedContent normalizedNewContent replacementCount w2))))"

text \<open>
  \<^verbatim>\<open>createEditTool(cwd, options)\<close>: fuzzy matching is on unless the options turn
  it off, and the writethrough callback defaults to \<^verbatim>\<open>writethroughNoop\<close>, imported
  from \<^verbatim>\<open>./lsp/index\<close>.
\<close>

definition createEditTool ::
  "'e editDiff \<Rightarrow> (string \<Rightarrow> string \<Rightarrow> string) \<Rightarrow> writethroughCallback \<Rightarrow> string
     \<Rightarrow> EditToolOptions \<Rightarrow> editArgs \<Rightarrow> world \<Rightarrow> ((editError + toolResult) \<times> world) option" where
  "createEditTool ed resolveToCwd writethroughNoop cwd options =
     execute ed resolveToCwd
       (case writethrough options of None \<Rightarrow> writethroughNoop | Some f \<Rightarrow> f)
       cwd
       (case fuzzyMatch options of None \<Rightarrow> True | Some b \<Rightarrow> b)"

subsection \<open>The module \<open>edit-diff\<close> as the specification describes it\<close>

text \<open>
  Modelled from the spec: \<^verbatim>\<open>stripBom\<close>, missing with the whole module
  \<^verbatim>\<open>./edit-diff\<close> from the sources, after the Document Normalizer of section
  4.1 (as are \<^verbatim>\<open>detectLineEnding\<close>, \<^verbatim>\<open>normalizeToLF\<close> and
  \<^verbatim>\<open>restoreLineEndings\<close> below). The marker is the three-byte UTF-8 byte-order
  marker at the start of the raw content; it is removed and kept.
\<close>

definition utf8Marker :: string where
  "utf8Marker = [CHR 0xEF, CHR 0xBB, CHR 0xBF]"

definition stripMarker :: "string \<Rightarrow> string \<times> string" where
  "stripMarker rawContent =
     (if prefix utf8Marker rawContent then (utf8Marker, drop 3 rawContent) else ([], rawContent))"

text \<open>
  Modelled from the spec: the counting inside the missing \<^verbatim>\<open>detectLineEnding\<close>.
  The two terminators of section 4.1, carriage return with linefeed and linefeed
  alone, are counted from the left; a linefeed that follows a carriage return
  belongs to the pair.
\<close>

fun countCRLF :: "string \<Rightarrow> nat" where
  "countCRLF [] = 0"
| "countCRLF [c] = 0"
| "countCRLF (c # d # cs) =
     (if c = CHR 0x0D \<and> d = CHR 0x0A then 1 + countCRLF cs else countCRLF (d # cs))"

fun countLF :: "string \<Rightarrow> nat" where
  "countLF [] = 0"
| "countLF [c] = (if c = CHR 0x0A then 1 else 0)"
| "countLF (c # d # cs) =
     (if c = CHR 0x0D \<and> d = CHR 0x0A then countLF cs
      else (if c = CHR 0x0A then 1 else 0) + countLF (d # cs))"

text \<open>
  Modelled from the spec: the missing \<^verbatim>\<open>detectLineEnding\<close> and the type of its
  result: the line-ending kind of section 3, "uniform-LF, uniform-CRLF,
  mixed-with-dominant-kind", detected as section 4.1 says: "when mixed, record ...
  the majority convention as the one to restore". The specification does not say
  which convention a tie restores; linefeed, the canonical form, is taken.
\<close>

datatype convention = LinefeedOnly | CarriageReturnLinefeed

datatype lineEndingKind = Uniform convention | Mixed convention

definition detectKind :: "string \<Rightarrow> lineEndingKind" where
  "detectKind content =
     (if countCRLF content = 0 then Uniform LinefeedOnly
      else if countLF content = 0 then Uniform CarriageReturnLinefeed
      else if countLF content < countCRLF content then Mixed CarriageReturnLinefeed
      else Mixed LinefeedOnly)"

fun toRestore :: "lineEndingKind \<Rightarrow> convention" where
  "toRestore (Uniform c) = c"
| "toRestore (Mixed c) = c"

text \<open>
  Modelled from the spec: the missing \<^verbatim>\<open>normalizeToLF\<close> (\<open>canonicalize\<close>) and
  \<^verbatim>\<open>restoreLineEndings\<close> (\<open>reexpand\<close>): "Canonicalization converts all
  terminators to a single linefeed ...; restoration re-expands to the recorded
  convention."
\<close>

fun canonicalize :: "string \<Rightarrow> string" where
  "canonicalize [] = []"
| "canonicalize [c] = [c]"
| "canonicalize (c # d # cs) =
     (if c = CHR 0x0D \<and> d = CHR 0x0A then CHR 0x0A # canonicalize cs
      else c # canonicalize (d # cs))"

fun expandLF :: "string \<Rightarrow> string" where
  "expandLF [] = []"
| "expandLF (c # cs) =
     (if c = CHR 0x0A then CHR 0x0D # CHR 0x0A # expandLF cs else c # expandLF cs)"

definition reexpand :: "string \<Rightarrow> lineEndingKind \<Rightarrow> string" where
  "reexpand canonicalContent kind =
     (case toRestore kind of
        LinefeedOnly \<Rightarrow> canonicalContent
      | CarriageReturnLinefeed \<Rightarrow> expandLF canonicalContent)"

text \<open>
  Modelled from the spec: the two operations of the normalizer as a whole, which
  the sources have only as the calls of lines 70 to 73 and 158 to the missing
  functions: the contract of section 4.1,
  \<^verbatim>\<open>normalize(rawContent) -> (marker, canonicalContent, lineEndingKind)\<close> and
  \<^verbatim>\<open>restore(canonicalContent, marker, lineEndingKind) -> rawContent\<close>.
\<close>

definition normalize :: "string \<Rightarrow> string \<times> string \<times> lineEndingKind" where
  "normalize rawContent =
     (let (marker, content) = stripMarker rawContent
      in (marker, canonicalize content, detectKind content))"

definition restore :: "string \<Rightarrow> string \<Rightarrow> lineEndingKind \<Rightarrow> string" where
  "restore canonicalContent marker kind = marker @ reexpand canonicalContent kind"

text \<open>
  Modelled from the spec: the exact scan of the missing \<^verbatim>\<open>findEditMatch\<close>, step
  1 of the Match Engine of section 4.2: "enumerate all non-overlapping exact
  occurrences of fragment in content in left-to-right order". The start offsets
  are listed. The specification gives the empty fragment no occurrences to
  enumerate, and the list is empty for it.
\<close>

function occurrencesFrom :: "string \<Rightarrow> nat \<Rightarrow> string \<Rightarrow> nat list" where
  "occurrencesFrom fragment i s =
     (if s = [] \<or> fragment = [] then []
      else if prefix fragment s
           then i # occurrencesFrom fragment (i + length fragment) (drop (length fragment) s)
      else occurrencesFrom fragment (i + 1) (tl s))"
  by pat_completeness auto
termination
  by (relation "measure (\<lambda>(fragment, i, s). length s)") auto

declare occurrencesFrom.simps [simp del]

definition exactOccurrences :: "string \<Rightarrow> string \<Rightarrow> nat list" where
  "exactOccurrences content fragment = occurrencesFrom fragment 0 content"

text \<open>
  Modelled from the spec: the approximate scan of the missing
  \<^verbatim>\<open>findEditMatch\<close>, step 2 of section 4.2. The specification names its
  ingredients and leaves their values open: the window tolerance, the normalized
  distance, the diagnostic floor and the bound on the candidate list. They are the
  fields of \<open>approxParams\<close>.
\<close>

record approxParams =
  tolerance :: nat
  distance :: "string \<Rightarrow> string \<Rightarrow> rat"
  diagnosticFloor :: rat
  candidateCap :: nat

text \<open>
  Modelled from the spec: the comparison text of the missing approximate scan:
  "runs of whitespace collapse to a single separator before comparison".
\<close>

definition isWhitespace :: "char \<Rightarrow> bool" where
  "isWhitespace c = (c = CHR '' '' \<or> c = CHR 0x09 \<or> c = CHR 0x0A \<or> c = CHR 0x0D)"

function collapseWhitespace :: "string \<Rightarrow> string" where
  "collapseWhitespace [] = []"
| "collapseWhitespace (c # cs) =
     (if isWhitespace c then CHR '' '' # collapseWhitespace (dropWhile isWhitespace cs)
      else c # collapseWhitespace cs)"
  by pat_completeness auto
termination
  by (relation "measure length") (auto simp: length_dropWhile_le less_Suc_eq_le)

text \<open>
  Modelled from the spec: the candidates of the missing approximate scan: "a
  sliding window of spans whose lengths are close to the fragment's length", from
  the left, each scored by "similarity to the fragment using a normalized distance
  metric over whitespace-insensitive tokens".
\<close>

definition spans :: "nat \<Rightarrow> nat \<Rightarrow> nat \<Rightarrow> (nat \<times> nat) list" where
  "spans contentLength fragmentLength tol =
     concat (map (\<lambda>start.
        map (\<lambda>len. (start, len))
          (filter (\<lambda>len. 0 < len \<and> start + len \<le> contentLength)
             [fragmentLength - tol ..< fragmentLength + tol + 1]))
        [0 ..< contentLength])"

definition candidate :: "approxParams \<Rightarrow> string \<Rightarrow> string \<Rightarrow> nat \<times> nat \<Rightarrow> EditMatch" where
  "candidate ap content fragment window =
     (let spanText = take (snd window) (drop (fst window) content)
      in \<lparr>actualText = spanText, startIndex = fst window,
          confidence = 1 - distance ap (collapseWhitespace spanText) (collapseWhitespace fragment)\<rparr>)"

definition candidates :: "approxParams \<Rightarrow> string \<Rightarrow> string \<Rightarrow> EditMatch list" where
  "candidates ap content fragment =
     map (candidate ap content fragment)
       (spans (length content) (length fragment) (tolerance ap))"

text \<open>
  Modelled from the spec: the choice among the candidates in the missing
  approximate scan: "select the highest-scoring candidate ...; ties on score are
  broken by the leftmost start offset". The list runs from the left, so a later
  candidate wins only with a higher score.
\<close>

fun bestCandidate :: "EditMatch list \<Rightarrow> EditMatch option" where
  "bestCandidate [] = None"
| "bestCandidate (c # cs) =
     (case bestCandidate cs of
        None \<Rightarrow> Some c
      | Some b \<Rightarrow> if confidence c < confidence b then Some b else Some c)"

text \<open>
  Modelled from the spec: the missing \<^verbatim>\<open>findEditMatch\<close>, after the contract
  \<^verbatim>\<open>findMatch(content, fragment, {allowApproximate, threshold}) -> MatchOutcome\<close> of
  section 4.2. One exact occurrence is the
  match, with confidence 1; several give no match and the count; none, and
  approximation allowed, gives the best candidate as the match if its score is at
  or above the threshold, and as \<open>closest\<close> otherwise.
\<close>

definition findMatch :: "approxParams \<Rightarrow> string \<Rightarrow> string \<Rightarrow> bool \<Rightarrow> rat \<Rightarrow> EditMatchOutcome" where
  "findMatch ap content fragment allowApproximate threshold =
     (case exactOccurrences content fragment of
        [i] \<Rightarrow>
          \<lparr>match = Some \<lparr>actualText = fragment, startIndex = i, confidence = 1\<rparr>,
           closest = None, occurrences = Some 1, fuzzyMatches = None\<rparr>
      | i # j # others \<Rightarrow>
          \<lparr>match = None, closest = None,
           occurrences = Some (length (i # j # others)), fuzzyMatches = None\<rparr>
      | [] \<Rightarrow>
          if allowApproximate
          then
            (let cs = candidates ap content fragment;
                 retained = take (candidateCap ap)
                              (filter (\<lambda>c. diagnosticFloor ap < confidence c) cs)
             in case bestCandidate cs of
                  None \<Rightarrow>
                    \<lparr>match = None, closest = None, occurrences = None,
                     fuzzyMatches = Some (length retained)\<rparr>
                | Some b \<Rightarrow>
                    if threshold \<le> confidence b
                    then \<lparr>match = Some b, closest = None, occurrences = None,
                          fuzzyMatches = Some (length retained)\<rparr>
                    else \<lparr>match = None, closest = Some b, occurrences = None,
                          fuzzyMatches = Some (length retained)\<rparr>)
          else \<lparr>match = None, closest = None, occurrences = None, fuzzyMatches = None\<rparr>)"

text \<open>
  Modelled from the spec: the missing module \<^verbatim>\<open>./edit-diff\<close> put together.
  The threshold \<^verbatim>\<open>DEFAULT_FUZZY_THRESHOLD\<close> ("a high default") and
  \<^verbatim>\<open>generateDiffString\<close>, the diff generator of section 4.4 whose text format
  the specification leaves open, are taken as given.
\<close>

definition specEditDiff ::
  "approxParams \<Rightarrow> rat \<Rightarrow> (string \<Rightarrow> string \<Rightarrow> diffResult) \<Rightarrow> lineEndingKind editDiff" where
  "specEditDiff ap threshold differ =
     \<lparr>DEFAULT_FUZZY_THRESHOLD = threshold,
      stripBom = stripMarker,
      detectLineEnding = detectKind,
      normalizeToLF = canonicalize,
      restoreLineEndings = reexpand,
      findEditMatch = findMatch ap,
      generateDiffString = differ\<rparr>"

subsection \<open>The loop, iteration by iteration\<close>

text \<open>
  The match the loop finds in a content, and the content after \<open>k\<close> passes through
  the loop body (\<open>None\<close> if the loop has left before); what the loop leaves with when
  it finds no match: the \<^verbatim>\<open>throw\<close> of line 106 with no replacement made, the
  \<^verbatim>\<open>break\<close> of line 112 otherwise.
\<close>

definition loopMatch :: "'e editDiff \<Rightarrow> bool \<Rightarrow> string \<Rightarrow> string \<Rightarrow> EditMatch option" where
  "loopMatch ed allowFuzzy normalizedOldText content =
     allModeMatch ed allowFuzzy
       (findEditMatch ed content normalizedOldText allowFuzzy (DEFAULT_FUZZY_THRESHOLD ed))"

fun contentAfter ::
  "'e editDiff \<Rightarrow> bool \<Rightarrow> string \<Rightarrow> string \<Rightarrow> nat \<Rightarrow> string \<Rightarrow> string option" where
  "contentAfter ed allowFuzzy old new 0 content = Some content"
| "contentAfter ed allowFuzzy old new (Suc k) content =
     (case loopMatch ed allowFuzzy old content of
        None \<Rightarrow> None
      | Some m \<Rightarrow> contentAfter ed allowFuzzy old new k (splice content m new))"

definition loopExit ::
  "'e editDiff \<Rightarrow> bool \<Rightarrow> string \<Rightarrow> string \<Rightarrow> string \<Rightarrow> nat \<Rightarrow> editError + string \<times> nat" where
  "loopExit ed allowFuzzy p old content replacementCount =
     (if replacementCount = 0
      then Inl (editMatchError ed allowFuzzy p old
                  (findEditMatch ed content old allowFuzzy (DEFAULT_FUZZY_THRESHOLD ed)))
      else Inr (content, replacementCount))"

text \<open>The calls \<^verbatim>\<open>execute\<close> has made once the file is read.\<close>

definition readEvents :: "string \<Rightarrow> string \<Rightarrow> string \<Rightarrow> event list" where
  "readEvents p cwd absolutePath = [Resolve p cwd, Exists absolutePath, ReadText absolutePath]"

text \<open>
  What the specification asks of the exact replace-all, in its own words: every
  one of the non-overlapping occurrences, taken from the left, gives way to the
  replacement text, and the count is their number (\<open>exactOccurrences\<close>). To be
  compared with \<^verbatim>\<open>split\<close> and \<^verbatim>\<open>join\<close> of lines 85 to 88.
\<close>

function specReplaceEvery :: "string \<Rightarrow> string \<Rightarrow> string \<Rightarrow> string" where
  "specReplaceEvery fragment replacement s =
     (if s = [] \<or> fragment = [] then s
      else if prefix fragment s
           then replacement @ specReplaceEvery fragment replacement (drop (length fragment) s)
      else hd s # specReplaceEvery fragment replacement (tl s))"
  by pat_completeness auto
termination
  by (relation "measure (\<lambda>(fragment, replacement, s). length s)") auto

declare specReplaceEvery.simps [simp del]

text \<open>
  The round trip of section 8 of the specification: \<^verbatim>\<open>restore(normalize(content))\<close>.
\<close>

definition roundTrip :: "string \<Rightarrow> string" where
  "roundTrip rawContent =
     (case normalize rawContent of (marker, canonicalContent, kind) \<Rightarrow>
        restore canonicalContent marker kind)"

subsection \<open>Values to compute with\<close>

text \<open>
  An instance of what the specification leaves open, to compute with: the
  distance is the edit distance divided by the longer length, the tolerance one
  character, the threshold 19/20; the diff generator returns an empty diff. Paths
  are resolved by joining them to the working directory, and the writethrough
  callback writes the file and returns no diagnostics.
\<close>

fun editDistance :: "string \<Rightarrow> string \<Rightarrow> nat" where
  "editDistance [] ys = length ys"
| "editDistance (x # xs) [] = length (x # xs)"
| "editDistance (x # xs) (y # ys) =
     (if x = y then editDistance xs ys
      else 1 + min (editDistance xs (y # ys)) (min (editDistance (x # xs) ys) (editDistance xs ys)))"

definition normalizedEditDistance :: "string \<Rightarrow> string \<Rightarrow> rat" where
  "normalizedEditDistance a b =
     (if a = [] \<and> b = [] then 0
      else of_nat (editDistance a b) / of_nat (max (length a) (length b)))"

definition exampleParams :: approxParams where
  "exampleParams =
     \<lparr>tolerance = 1, distance = normalizedEditDistance, diagnosticFloor = 1 / 2,
      candidateCap = 8\<rparr>"

definition exampleEditDiff :: "lineEndingKind editDiff" where
  "exampleEditDiff =
     specEditDiff exampleParams (19 / 20) (\<lambda>before after. \<lparr>diff = [], firstChangedLine = None\<rparr>)"

definition exampleResolve :: "string \<Rightarrow> string \<Rightarrow> string" where
  "exampleResolve p cwd = cwd @ ''/'' @ p"

definition writeOnly :: writethroughCallback where
  "writeOnly p finalContent files = (Inr None, files(p \<mapsto> finalContent))"

definition worldWith :: "string \<Rightarrow> world" where
  "worldWith content = \<lparr>disk = [''/w/f.txt'' \<mapsto> content], trace = []\<rparr>"

definition editOf :: "string \<Rightarrow> string \<Rightarrow> bool option \<Rightarrow> editArgs" where
  "editOf old new allFlag = \<lparr>path = ''f.txt'', oldText = old, newText = new, all = allFlag\<rparr>"

definition twoAssignments :: string where
  "twoAssignments = ''x=1'' @ [CHR 0x0A] @ ''x=1'' @ [CHR 0x0A]"

definition tabbed :: string where
  "tabbed = [CHR ''a'', CHR 0x09, CHR ''b'']"

definition threeLines :: string where
  "threeLines = ''a'' @ [CHR 0x0A] @ ''b'' @ [CHR 0x0A] @ ''c'' @ [CHR 0x0A]"

definition twoAssignmentsDone :: string where
  "twoAssignmentsDone = ''x=2'' @ [CHR 0x0A] @ ''x=2'' @ [CHR 0x0A]"

definition spaced :: string where
  "spaced = ''a  b''"

section \<open>The registry: registration, lookup, removal by source\<close>

lemma wfRegistry_empty: "wfRegistry []"
  by (simp add: wfRegistry_def)

lemma wfRegistry_register: "wfRegistry reg \<Longrightarrow> wfRegistry (registerCustomApi api f sid reg)"
  by (simp add: wfRegistry_def registerCustomApi_def distinct_update)

lemma unregisterStep_lookup:
  "map_of (unregisterStep sid (k', e') reg) k =
     (if k = k' \<and> sourceId e' = Some sid then None else map_of reg k)"
  by (simp add: unregisterStep_def delete_conv')

lemma fold_unregisterStep_lookup:
  "map_of (fold (unregisterStep sid) es reg) k =
     (if \<exists>e. (k, e) \<in> set es \<and> sourceId e = Some sid then None else map_of reg k)"
proof (induction es arbitrary: reg)
  case Nil
  show ?case by simp
next
  case (Cons kv es)
  obtain k' e' where kv: "kv = (k', e')" by (cases kv)
  have "map_of (fold (unregisterStep sid) (kv # es) reg) k =
        map_of (fold (unregisterStep sid) es (unregisterStep sid (k', e') reg)) k"
    by (simp add: kv)
  also have "\<dots> = (if \<exists>e. (k, e) \<in> set es \<and> sourceId e = Some sid then None
                    else map_of (unregisterStep sid (k', e') reg) k)"
    by (rule Cons.IH)
  also have "\<dots> = (if \<exists>e. (k, e) \<in> set (kv # es) \<and> sourceId e = Some sid then None
                    else map_of reg k)"
    unfolding unregisterStep_lookup kv by auto
  finally show ?case .
qed

lemma fold_unregisterStep_distinct:
  "distinct (map fst reg) \<Longrightarrow> distinct (map fst (fold (unregisterStep sid) es reg))"
  by (induction es arbitrary: reg) (simp_all add: unregisterStep_def distinct_delete)

lemma wfRegistry_unregister: "wfRegistry reg \<Longrightarrow> wfRegistry (unregisterCustomApis sid reg)"
  by (simp add: wfRegistry_def unregisterCustomApis_def fold_unregisterStep_distinct)

lemma unregister_lookup:
  assumes "wfRegistry reg"
  shows "map_of (unregisterCustomApis sid reg) k =
     (case map_of reg k of
        None \<Rightarrow> None
      | Some e \<Rightarrow> if sourceId e = Some sid then None else Some e)"
proof (cases "map_of reg k")
  case None
  then show ?thesis
    by (simp add: unregisterCustomApis_def fold_unregisterStep_lookup)
next
  case (Some e)
  have d: "distinct (map fst reg)" using assms by (simp add: wfRegistry_def)
  have "(k, e') \<in> set reg \<longleftrightarrow> e' = e" for e'
    using d Some by (metis map_of_eq_Some_iff option.inject)
  then show ?thesis
    using Some by (simp add: unregisterCustomApis_def fold_unregisterStep_lookup)
qed

text \<open>
  Claim C9. After \<open>registerCustomApi a f s\<close> the lookup of \<open>a\<close> returns \<open>f\<close>.
  \<open>unregisterCustomApis s\<close> removes exactly the keys whose entry records the source
  \<open>s\<close>: such a key is looked up as absent afterwards, and a key whose entry has another
  source, or none, is looked up as before.
\<close>

theorem registry_frame:
  assumes "wfRegistry reg"
  shows "getCustomApi a (registerCustomApi a f sid reg) = Some f
    \<and> (\<forall>k. getCustomApi k (unregisterCustomApis s reg) =
          (case map_of reg k of
             None \<Rightarrow> None
           | Some e \<Rightarrow> if sourceId e = Some s then None else Some (streamSimple e)))
    \<and> (\<forall>k. (\<forall>e. map_of reg k = Some e \<longrightarrow> sourceId e \<noteq> Some s) \<longrightarrow>
          getCustomApi k (unregisterCustomApis s reg) = getCustomApi k reg)"
proof -
  have reg: "getCustomApi a (registerCustomApi a f sid reg) = Some f"
    by (simp add: getCustomApi_def registerCustomApi_def update_conv')
  have unreg: "getCustomApi k (unregisterCustomApis s reg) =
          (case map_of reg k of
             None \<Rightarrow> None
           | Some e \<Rightarrow> if sourceId e = Some s then None else Some (streamSimple e))" for k
    by (simp add: getCustomApi_def unregister_lookup [OF assms] split: option.splits)
  have frame: "getCustomApi k (unregisterCustomApis s reg) = getCustomApi k reg"
    if "\<forall>e. map_of reg k = Some e \<longrightarrow> sourceId e \<noteq> Some s" for k
    using that unreg [of k] by (auto simp: getCustomApi_def split: option.splits)
  show ?thesis using reg unreg frame by blast
qed

theorem registry_frame_witness:
  "wfRegistry [(''a'', \<lparr>streamSimple = (1::nat), sourceId = Some ''ext1''\<rparr>),
               (''b'', \<lparr>streamSimple = 2, sourceId = None\<rparr>)]
   \<and> getCustomApi ''c''
        (registerCustomApi ''c'' 3 (Some ''ext1'')
          [(''a'', \<lparr>streamSimple = (1::nat), sourceId = Some ''ext1''\<rparr>),
           (''b'', \<lparr>streamSimple = 2, sourceId = None\<rparr>)]) = Some 3
   \<and> getCustomApi ''a''
        (unregisterCustomApis ''ext1''
          [(''a'', \<lparr>streamSimple = (1::nat), sourceId = Some ''ext1''\<rparr>),
           (''b'', \<lparr>streamSimple = 2, sourceId = None\<rparr>)]) = None
   \<and> getCustomApi ''b''
        (unregisterCustomApis ''ext1''
          [(''a'', \<lparr>streamSimple = (1::nat), sourceId = Some ''ext1''\<rparr>),
           (''b'', \<lparr>streamSimple = 2, sourceId = None\<rparr>)])
       = getCustomApi ''b''
          [(''a'', \<lparr>streamSimple = (1::nat), sourceId = Some ''ext1''\<rparr>),
           (''b'', \<lparr>streamSimple = 2, sourceId = None\<rparr>)]
   \<and> getCustomApi ''b''
          [(''a'', \<lparr>streamSimple = (1::nat), sourceId = Some ''ext1''\<rparr>),
           (''b'', \<lparr>streamSimple = 2, sourceId = None\<rparr>)] = Some 2"
proof -
  let ?reg = "[(''a'', \<lparr>streamSimple = (1::nat), sourceId = Some ''ext1''\<rparr>),
               (''b'', \<lparr>streamSimple = 2, sourceId = None\<rparr>)]"
  have wf: "wfRegistry ?reg" by (simp add: wfRegistry_def)
  have other: "\<forall>e. map_of ?reg ''b'' = Some e \<longrightarrow> sourceId e \<noteq> Some ''ext1''"
    by simp
  have before: "getCustomApi ''b'' ?reg = Some 2"
    by (simp add: getCustomApi_def)
  from registry_frame [OF wf, of "''c''" 3 "Some ''ext1''" "''ext1''"]
  have r: "getCustomApi ''c'' (registerCustomApi ''c'' 3 (Some ''ext1'') ?reg) = Some 3"
    and u: "\<And>k. getCustomApi k (unregisterCustomApis ''ext1'' ?reg) =
          (case map_of ?reg k of
             None \<Rightarrow> None
           | Some e \<Rightarrow> if sourceId e = Some ''ext1'' then None else Some (streamSimple e))"
    and f: "\<And>k. (\<forall>e. map_of ?reg k = Some e \<longrightarrow> sourceId e \<noteq> Some ''ext1'') \<Longrightarrow>
          getCustomApi k (unregisterCustomApis ''ext1'' ?reg) = getCustomApi k ?reg"
    by blast+
  have gone: "getCustomApi ''a'' (unregisterCustomApis ''ext1'' ?reg) = None"
    using u [of "''a''"] by simp
  show ?thesis using wf r gone f [OF other] before by (intro conjI)
qed

section \<open>Snowflake: the identifier lies between its bounds\<close>

subsection \<open>Masks and shifts as arithmetic\<close>

lemma and_mask22: "(x::int) AND 0x3fffff = x mod 2 ^ 22"
proof -
  have "(0x3fffff::int) = mask 22" by (simp add: mask_eq_exp_minus_1)
  then have "x AND 0x3fffff = take_bit 22 x" by (simp add: take_bit_eq_mask)
  then show ?thesis by (simp add: take_bit_eq_mod)
qed

lemma or_push: "0 \<le> s \<Longrightarrow> s < 2 ^ n \<Longrightarrow> (s::int) OR push_bit n d = s + d * 2 ^ n"
proof -
  assume a: "0 \<le> s" "s < 2 ^ n"
  have s: "take_bit n s = s" using a by (simp add: take_bit_int_eq_self)
  have "s + push_bit n d = s OR push_bit n d"
    apply (rule disjunctive_add_eq_or)
    apply (rule bit_eqI)
    apply (subst s [symmetric])
    apply (auto simp: bit_simps)
    done
  then show ?thesis by (simp add: push_bit_eq_mult)
qed

subsection \<open>Hexadecimal digits: printing, reading, order\<close>

lemma less16_cases:
  "d < 16 \<Longrightarrow> d = 0 \<or> d = 1 \<or> d = 2 \<or> d = 3 \<or> d = 4 \<or> d = 5 \<or> d = 6 \<or> d = 7 \<or> d = 8
     \<or> d = 9 \<or> d = 10 \<or> d = 11 \<or> d = 12 \<or> d = 13 \<or> d = 14 \<or> d = (15::nat)"
  by arith

lemma hexDigit_props:
  assumes "d < 16"
  shows "isHexLower (hexDigit d)" and "digitValue (hexDigit d) = d"
  using less16_cases [OF assms]
  by (auto simp: hexDigit_def isHexLower_def digitValue_def)

lemma digit_order:
  assumes "isHexLower x" "isHexLower y"
  shows "((of_char x :: nat) < of_char y) = (digitValue x < digitValue y)"
    and "(x = y) = (digitValue x = digitValue y)"
    and "digitValue x < 16"
proof -
  show "((of_char x :: nat) < of_char y) = (digitValue x < digitValue y)"
    using assms by (auto simp: isHexLower_def digitValue_def)
  have "digitValue x = digitValue y \<Longrightarrow> (of_char x :: nat) = of_char y"
    using assms unfolding isHexLower_def digitValue_def
    by (simp del: of_char_eq_iff split: if_splits) arith+
  then show "(x = y) = (digitValue x = digitValue y)"
    by auto
  show "digitValue x < 16"
    using assms by (auto simp: isHexLower_def digitValue_def)
qed

lemma foldl_hex_acc:
  "foldl (\<lambda>acc c. acc * 16 + int (digitValue c)) a s =
     a * 16 ^ length s + foldl (\<lambda>acc c. acc * 16 + int (digitValue c)) 0 s"
proof -
  define f where "f = (\<lambda>acc c. acc * 16 + int (digitValue c))"
  have "foldl f a s = a * 16 ^ length s + foldl f 0 s"
  proof (induction s arbitrary: a)
    case Nil
    show ?case by simp
  next
    case (Cons c s)
    have "foldl f a (c # s) = foldl f (a * 16 + int (digitValue c)) s"
      by (simp add: f_def)
    also have "\<dots> = (a * 16 + int (digitValue c)) * 16 ^ length s + foldl f 0 s"
      by (rule Cons.IH)
    also have "\<dots> = a * 16 ^ length (c # s) + (int (digitValue c) * 16 ^ length s + foldl f 0 s)"
      by (simp add: algebra_simps)
    also have "int (digitValue c) * 16 ^ length s + foldl f 0 s = foldl f (int (digitValue c)) s"
      by (rule Cons.IH [symmetric])
    also have "foldl f (int (digitValue c)) s = foldl f 0 (c # s)"
      by (simp add: f_def)
    finally show ?case .
  qed
  then show ?thesis by (simp add: f_def)
qed

lemma parseHex_Nil: "parseHex [] = 0"
  by (simp add: parseHex_def)

lemma parseHex_Cons: "parseHex (c # s) = int (digitValue c) * 16 ^ length s + parseHex s"
  by (simp add: parseHex_def foldl_hex_acc [of "int (digitValue c)"])

lemma parseHex_append: "parseHex (a @ b) = parseHex a * 16 ^ length b + parseHex b"
  by (induction a) (simp_all add: parseHex_Nil parseHex_Cons power_add algebra_simps)

lemma parseHex_bounds:
  "list_all isHexLower s \<Longrightarrow> 0 \<le> parseHex s \<and> parseHex s < 16 ^ length s"
proof (induction s)
  case Nil
  show ?case by (simp add: parseHex_Nil)
next
  case (Cons c s)
  define p :: int where "p = 16 ^ length s"
  from Cons have ih: "0 \<le> parseHex s" "parseHex s < p" and c: "isHexLower c"
    by (simp_all add: p_def)
  have d: "int (digitValue c) \<le> 15"
    using digit_order(3) [OF c c] by simp
  have "0 \<le> p" by (simp add: p_def)
  then have m: "int (digitValue c) * p \<le> 15 * p" "0 \<le> int (digitValue c) * p"
    using d by (simp_all add: mult_right_mono)
  have eq: "parseHex (c # s) = int (digitValue c) * p + parseHex s"
    "(16::int) ^ length (c # s) = 16 * p"
    by (simp_all add: parseHex_Cons p_def)
  show ?case unfolding eq using m ih by linarith
qed

lemma strLe_numeric:
  assumes "length a = length b" "list_all isHexLower a" "list_all isHexLower b"
  shows "strLe a b \<longleftrightarrow> parseHex a \<le> parseHex b"
  using assms
proof (induction a b rule: list_induct2)
  case Nil
  show ?case by (simp add: parseHex_Nil)
next
  case (Cons x xs y ys)
  then have hx: "isHexLower x" and hy: "isHexLower y"
    and hxs: "list_all isHexLower xs" and hys: "list_all isHexLower ys"
    by simp_all
  have ih: "strLe xs ys \<longleftrightarrow> parseHex xs \<le> parseHex ys"
    using Cons.IH hxs hys by simp
  have len: "length ys = length xs" using Cons.hyps by simp
  note bx = parseHex_bounds [OF hxs] and by' = parseHex_bounds [OF hys]
  let ?p = "(16::int) ^ length xs"
  have ppos: "0 < ?p" by simp
  show ?case
  proof (cases "digitValue x < digitValue y")
    case True
    then have "int (digitValue x) + 1 \<le> int (digitValue y)" by simp
    then have "(int (digitValue x) + 1) * ?p \<le> int (digitValue y) * ?p"
      using ppos by (simp only: mult_right_mono less_imp_le)
    then have "int (digitValue x) * ?p + parseHex xs < int (digitValue y) * ?p + parseHex ys"
      using bx by' by (simp add: algebra_simps)
    then show ?thesis
      using True digit_order(1) [OF hx hy] by (simp add: parseHex_Cons len)
  next
    case False
    show ?thesis
    proof (cases "digitValue x = digitValue y")
      case True
      then show ?thesis
        using digit_order(1,2) [OF hx hy] ih by (simp add: parseHex_Cons len)
    next
      case neq: False
      then have gt: "digitValue y < digitValue x" using False by simp
      then have "int (digitValue y) + 1 \<le> int (digitValue x)" by simp
      then have "(int (digitValue y) + 1) * ?p \<le> int (digitValue x) * ?p"
        using ppos by (simp only: mult_right_mono less_imp_le)
      then have "int (digitValue y) * ?p + parseHex ys < int (digitValue x) * ?p + parseHex xs"
        using bx by' len by (simp add: algebra_simps)
      then show ?thesis
        using gt neq digit_order(1,2) [OF hx hy] by (simp add: parseHex_Cons len)
    qed
  qed
qed

lemma hexDigits_props:
  "list_all isHexLower (hexDigits n) \<and> parseHex (hexDigits n) = int n
     \<and> (\<forall>k. 0 < k \<longrightarrow> n < 16 ^ k \<longrightarrow> length (hexDigits n) \<le> k)"
proof (induction n rule: hexDigits.induct)
  case (1 n)
  show ?case
  proof (cases "n < 16")
    case True
    then have "hexDigits n = [hexDigit n]" by (simp add: hexDigits.simps)
    then show ?thesis
      using hexDigit_props [OF True] by (auto simp: parseHex_Cons parseHex_Nil)
  next
    case False
    then have eq: "hexDigits n = hexDigits (n div 16) @ [hexDigit (n mod 16)]"
      by (subst hexDigits.simps) simp
    have ih: "list_all isHexLower (hexDigits (n div 16))"
      "parseHex (hexDigits (n div 16)) = int (n div 16)"
      "\<And>k. 0 < k \<Longrightarrow> n div 16 < 16 ^ k \<Longrightarrow> length (hexDigits (n div 16)) \<le> k"
      using "1.IH" [OF False] by auto
    have m: "n mod 16 < 16" by simp
    have len: "length (hexDigits n) \<le> k" if k: "0 < k" "n < 16 ^ k" for k
    proof -
      obtain j where j: "k = Suc j" using k(1) by (cases k) auto
      have "j \<noteq> 0" using k(2) False j by (cases j) auto
      moreover have "n div 16 < 16 ^ j"
        using k(2) j by (simp add: less_mult_imp_div_less mult.commute)
      ultimately have "length (hexDigits (n div 16)) \<le> j" using ih(3) by simp
      then show ?thesis by (simp add: eq j)
    qed
    have "parseHex (hexDigits n) = int (n div 16) * 16 + int (n mod 16)"
      using hexDigit_props(2) [OF m]
      by (simp add: eq parseHex_append ih(2) parseHex_Cons parseHex_Nil)
    also have "\<dots> = int n"
    proof -
      have "n div 16 * 16 + n mod 16 = n" by simp
      then have "int (n div 16 * 16 + n mod 16) = int n" by (rule arg_cong)
      then show ?thesis by (simp only: of_nat_add of_nat_mult of_nat_numeral)
    qed
    finally have v: "parseHex (hexDigits n) = int n" .
    show ?thesis
      using ih(1) hexDigit_props(1) [OF m] v len by (simp add: eq)
  qed
qed

lemma parseHex_zeros: "parseHex (replicate m CHR ''0'' @ s) = parseHex s"
  by (induction m) (simp_all add: parseHex_Cons digitValue_def)

lemma toHex_props:
  assumes "0 \<le> v" "v < 2 ^ 64"
  shows "valid (toHex v)" and "parseHex (toHex v) = v"
proof -
  have n: "nat v < 16 ^ 16" using assms by simp
  note h = hexDigits_props [of "nat v"]
  have len: "length (hexDigits (nat v)) \<le> 16"
    using h n by (metis zero_less_numeral)
  have t: "toHex v = replicate (16 - length (hexDigits (nat v))) CHR ''0'' @ hexDigits (nat v)"
    using assms by (simp add: toHex_def padStart_def toString16_def)
  have z: "isHexLower CHR ''0''" by (simp add: isHexLower_def)
  show "valid (toHex v)"
    using h len z by (auto simp: valid_def t list_all_iff)
  show "parseHex (toHex v) = v"
    using h assms by (simp add: t parseHex_zeros)
qed

lemma toBigInt_valid:
  assumes "valid s"
  shows "toBigInt s = Some (parseHex s)"
proof -
  have l: "length s = 16" and a: "list_all isHexLower s"
    using assms by (simp_all add: valid_def)
  have s: "s = take 8 s @ drop 8 s" by simp
  have lo: "list_all isHexLower (drop 8 s)" "length (drop 8 s) = 8"
    using a l by (simp_all add: list_all_iff in_set_dropD)
  have b: "0 \<le> parseHex (drop 8 s)" "parseHex (drop 8 s) < 2 ^ 32"
    using parseHex_bounds [OF lo(1)] lo(2) by simp_all
  have "push_bit 32 (parseHex (take 8 s)) OR parseHex (drop 8 s)
        = parseHex (drop 8 s) OR push_bit 32 (parseHex (take 8 s))"
    by (simp add: or.commute)
  also have "\<dots> = parseHex (drop 8 s) + parseHex (take 8 s) * 2 ^ 32"
    using b by (rule or_push)
  also have "\<dots> = parseHex (take 8 s @ drop 8 s)"
    by (simp only: parseHex_append lo(2)) simp
  also have "take 8 s @ drop 8 s = s" by simp
  finally show ?thesis using assms l by (simp add: toBigInt_def)
qed

text \<open>
  Claim C10. For a timestamp \<open>t\<close> with \<open>epoch \<le> t < epoch + 2^42\<close> the identifier
  returned by \<open>next\<close> matches the pattern of 16 lowercase hexadecimal characters, and
  lies between \<open>lowerbound t\<close> and \<open>upperbound t\<close> in the order of strings; the three
  strings read back (\<open>toBigInt\<close>) as numbers in the same order, and on any two strings
  of the pattern the order of strings is the order of the numbers they denote.
\<close>

theorem snowflake_next_bounds:
  assumes "epoch src \<le> t" and "t < epoch src + 2 ^ 42"
  shows "valid (fst (Source_next src t))
    \<and> strLe (lowerbound (Millis t) src) (fst (Source_next src t))
    \<and> strLe (fst (Source_next src t)) (upperbound (Millis t) src)
    \<and> (\<exists>lo v hi.
          toBigInt (lowerbound (Millis t) src) = Some lo
        \<and> toBigInt (fst (Source_next src t)) = Some v
        \<and> toBigInt (upperbound (Millis t) src) = Some hi
        \<and> lo \<le> v \<and> v \<le> hi)
    \<and> (\<forall>a b. valid a \<and> valid b \<longrightarrow>
          (strLe a b \<longleftrightarrow> the (toBigInt a) \<le> the (toBigInt b)))"
proof -
  define d where "d = t - epoch src"
  define s where "s = (seq src + 1) AND 0x3fffff"
  define lo where "lo = d * 2 ^ 22"
  define v where "v = s + lo"
  define hi where "hi = 0x3fffff + lo"
  have d: "0 \<le> d" "d < 2 ^ 42" using assms by (simp_all add: d_def)
  have s: "0 \<le> s" "s < 2 ^ 22" by (simp_all add: s_def and_mask22)
  have "d * 2 ^ 22 \<le> (2 ^ 42 - 1) * 2 ^ 22"
    using d by (intro mult_right_mono) simp_all
  then have lo: "0 \<le> lo" "lo \<le> 2 ^ 64 - 2 ^ 22" using d by (simp_all add: lo_def)
  have ord: "lo \<le> v" "v \<le> hi" using s by (simp_all add: v_def hi_def)
  have "s OR push_bit 22 d = s + d * 2 ^ 22"
    using s by (rule or_push)
  moreover have "fst (Source_next src t) = toHex (s OR push_bit 22 d)"
    by (simp add: Source_next_def Let_def s_def d_def)
  ultimately have nx: "fst (Source_next src t) = toHex v"
    by (simp only: v_def lo_def)
  have lb: "lowerbound (Millis t) src = toHex lo"
    by (simp add: lo_def d_def push_bit_eq_mult)
  have "0x3fffff OR push_bit 22 d = 0x3fffff + d * 2 ^ 22"
    by (rule or_push) simp_all
  then have ub: "upperbound (Millis t) src = toHex hi"
    by (simp only: upperbound.simps hi_def lo_def d_def)
  have r1: "0 \<le> lo" "lo < 2 ^ 64" using lo by simp_all
  have r2: "0 \<le> v" "v < 2 ^ 64" using lo s by (simp_all add: v_def)
  have r3: "0 \<le> hi" "hi < 2 ^ 64" using lo by (simp_all add: hi_def)
  note p1 = toHex_props [OF r1] and p2 = toHex_props [OF r2] and p3 = toHex_props [OF r3]
  have agree: "strLe a b \<longleftrightarrow> the (toBigInt a) \<le> the (toBigInt b)"
    if "valid a" "valid b" for a b
    using that strLe_numeric [of a b] by (simp add: toBigInt_valid) (simp add: valid_def)
  have n1: "toBigInt (toHex lo) = Some lo" by (simp add: toBigInt_valid p1)
  have n2: "toBigInt (toHex v) = Some v" by (simp add: toBigInt_valid p2)
  have n3: "toBigInt (toHex hi) = Some hi" by (simp add: toBigInt_valid p3)
  have c1: "valid (fst (Source_next src t))" by (simp add: nx p2)
  have c2: "strLe (lowerbound (Millis t) src) (fst (Source_next src t))"
    unfolding nx lb using agree [OF p1(1) p2(1)] ord by (simp add: n1 n2)
  have c3: "strLe (fst (Source_next src t)) (upperbound (Millis t) src)"
    unfolding nx ub using agree [OF p2(1) p3(1)] ord by (simp add: n2 n3)
  have c4: "\<exists>lo v hi.
          toBigInt (lowerbound (Millis t) src) = Some lo
        \<and> toBigInt (fst (Source_next src t)) = Some v
        \<and> toBigInt (upperbound (Millis t) src) = Some hi
        \<and> lo \<le> v \<and> v \<le> hi"
    unfolding nx lb ub using ord n1 n2 n3 by blast
  show ?thesis using c1 c2 c3 c4 agree by blast
qed

subsection \<open>An identifier computed\<close>

lemma zeros10: "replicate 10 CHR ''0'' = ''0000000000''"
  by (simp add: numeral_eq_Suc)

lemma toHex_example: "toHex 4194346 = ''000000000040002a''"
  by (simp add: toHex_def toString16_def padStart_def hexDigits.simps hexDigit_def zeros10)

lemma next_example: "fst (Source_next \<lparr>epoch = 1420070400000, seq = 41\<rparr> 1420070400001) = ''000000000040002a''"
proof -
  have "((41::int) + 1) AND 0x3fffff = 42" by (simp add: and_mask22)
  moreover have "(42::int) OR push_bit 22 1 = 4194346" by (simp add: or_push)
  ultimately show ?thesis by (simp add: Source_next_def Let_def toHex_example)
qed

lemma lowerbound_example: "lowerbound (Millis 1420070400001) \<lparr>epoch = 1420070400000, seq = 41\<rparr> = ''0000000000400000''"
  by (simp add: push_bit_eq_mult toHex_def toString16_def padStart_def hexDigits.simps hexDigit_def zeros10)

lemma upperbound_example: "upperbound (Millis 1420070400001) \<lparr>epoch = 1420070400000, seq = 41\<rparr> = ''00000000007fffff''"
proof -
  have "(0x3fffff::int) OR push_bit 22 1 = 8388607" by (simp add: or_push)
  then show ?thesis
    by (simp add: toHex_def toString16_def padStart_def hexDigits.simps hexDigit_def zeros10)
qed

theorem snowflake_next_bounds_witness:
  "epoch \<lparr>epoch = 1420070400000, seq = 41\<rparr> \<le> 1420070400001
   \<and> 1420070400001 < epoch \<lparr>epoch = 1420070400000, seq = 41\<rparr> + 2 ^ 42
   \<and> fst (Source_next \<lparr>epoch = 1420070400000, seq = 41\<rparr> 1420070400001) = ''000000000040002a''
   \<and> valid (fst (Source_next \<lparr>epoch = 1420070400000, seq = 41\<rparr> 1420070400001))
   \<and> strLe ''0000000000400000'' ''000000000040002a''
   \<and> strLe ''000000000040002a'' ''00000000007fffff''"
proof -
  let ?src = "\<lparr>epoch = 1420070400000, seq = 41\<rparr>"
  have h1: "epoch ?src \<le> 1420070400001" by simp
  have h2: "1420070400001 < epoch ?src + 2 ^ 42" by simp
  note th = snowflake_next_bounds [OF h1 h2]
  have v: "valid (fst (Source_next ?src 1420070400001))"
    using th by (rule conjunct1)
  have l: "strLe (lowerbound (Millis 1420070400001) ?src) (fst (Source_next ?src 1420070400001))"
    using th by (elim conjE)
  have u: "strLe (fst (Source_next ?src 1420070400001)) (upperbound (Millis 1420070400001) ?src)"
    using th by (elim conjE)
  show ?thesis
    using h1 h2 v l [unfolded next_example lowerbound_example] u [unfolded next_example upperbound_example] next_example by (intro conjI)
qed

section \<open>The edit tool: errors, replacement, termination\<close>

subsection \<open>The loop leaves exactly when no match is found\<close>

lemma fuzzyLoop_stop:
  assumes "loopMatch ed af old c = None"
  shows "fuzzyLoop ed af p old new c n = Some (loopExit ed af p old c n)"
  using assms by (subst fuzzyLoop.simps) (simp add: loopMatch_def loopExit_def Let_def)

lemma fuzzyLoop_step:
  assumes "loopMatch ed af old c = Some m"
  shows "fuzzyLoop ed af p old new c n = fuzzyLoop ed af p old new (splice c m new) (Suc n)"
  using assms by (subst fuzzyLoop.simps) (simp add: loopMatch_def Let_def)

lemma fuzzyLoop_halts_after:
  assumes "contentAfter ed af old new k c = Some c'" and "loopMatch ed af old c' = None"
  shows "fuzzyLoop ed af p old new c n = Some (loopExit ed af p old c' (n + k))"
  using assms
proof (induction k arbitrary: c n)
  case 0
  then show ?case by (simp add: fuzzyLoop_stop)
next
  case (Suc k)
  from Suc.prems(1) obtain m where m: "loopMatch ed af old c = Some m"
    and rest: "contentAfter ed af old new k (splice c m new) = Some c'"
    by (auto split: option.splits)
  show ?case
    using Suc.IH [OF rest Suc.prems(2), of "Suc n"] by (simp add: fuzzyLoop_step [OF m])
qed

lemma fuzzyLoop_result:
  assumes "fuzzyLoop ed af p old new c n = Some r"
  shows "\<exists>k c'. contentAfter ed af old new k c = Some c' \<and> loopMatch ed af old c' = None
           \<and> r = loopExit ed af p old c' (n + k)"
proof (rule fuzzyLoop.raw_induct
    [where P = "\<lambda>ed af p old new c n r.
       \<exists>k c'. contentAfter ed af old new k c = Some c' \<and> loopMatch ed af old c' = None
           \<and> r = loopExit ed af p old c' (n + k)", OF _ assms])
  fix loop :: "'a editDiff \<Rightarrow> bool \<Rightarrow> string \<Rightarrow> string \<Rightarrow> string \<Rightarrow> string \<Rightarrow> nat
     \<Rightarrow> (editError + string \<times> nat) option"
  fix ed af p old new c n r
  assume IH: "\<And>ed af p old new c n r. loop ed af p old new c n = Some r \<Longrightarrow>
       \<exists>k c'. contentAfter ed af old new k c = Some c' \<and> loopMatch ed af old c' = None
           \<and> r = loopExit ed af p old c' (n + k)"
  assume body: "(let matchOutcome = findEditMatch ed c old af (DEFAULT_FUZZY_THRESHOLD ed)
      in case allModeMatch ed af matchOutcome of
        None \<Rightarrow>
          if n = 0
          then Some (Inl (editMatchError ed af p old matchOutcome))
          else Some (Inr (c, n))
      | Some m \<Rightarrow> loop ed af p old new (splice c m new) (n + 1)) = Some r"
  show "\<exists>k c'. contentAfter ed af old new k c = Some c' \<and> loopMatch ed af old c' = None
           \<and> r = loopExit ed af p old c' (n + k)"
  proof (cases "loopMatch ed af old c")
    case None
    then have "r = loopExit ed af p old c n"
      using body by (auto simp: loopMatch_def loopExit_def Let_def split: if_splits)
    then show ?thesis
      using None by (intro exI [of _ 0] exI [of _ c]) simp
  next
    case (Some m)
    then have "loop ed af p old new (splice c m new) (n + 1) = Some r"
      using body by (simp add: loopMatch_def Let_def)
    from IH [OF this] obtain k c' where
      k: "contentAfter ed af old new k (splice c m new) = Some c'"
         "loopMatch ed af old c' = None" "r = loopExit ed af p old c' (n + 1 + k)"
      by blast
    show ?thesis
      using k Some by (intro exI [of _ "Suc k"] exI [of _ c']) simp
  qed
qed

lemma contentAfter_fixed:
  "loopMatch ed af old c = Some m \<Longrightarrow> splice c m new = c \<Longrightarrow>
     contentAfter ed af old new k c = Some c"
  by (induction k) simp_all

lemma fuzzyLoop_fixed_content:
  assumes "loopMatch ed af old c = Some m" and "splice c m new = c"
  shows "fuzzyLoop ed af p old new c n = None"
proof (cases "fuzzyLoop ed af p old new c n")
  case None
  then show ?thesis .
next
  case (Some r)
  from fuzzyLoop_result [OF Some] obtain k c' where
    "contentAfter ed af old new k c = Some c'" and "loopMatch ed af old c' = None"
    by blast
  then show ?thesis using contentAfter_fixed [OF assms, of k] assms(1) by simp
qed

subsection \<open>The paths through \<open>execute\<close>\<close>

lemma logged_logged: "logged b (logged a w) = logged (a @ b) w"
  by (simp add: logged_def)

lemma logged_fields: "disk (logged evs w) = disk w" "trace (logged evs w) = trace w @ evs"
  by (simp_all add: logged_def)

lemma execute_notebook:
  "endsWith (path args) ''.ipynb'' \<Longrightarrow>
     execute ed resolveToCwd wt cwd af args w = Some (Inl (UnsupportedFormat notebookMessage), w)"
  by (simp add: execute_def)

lemma execute_missing:
  assumes "\<not> endsWith (path args) ''.ipynb''"
    and "disk w (resolveToCwd (path args) cwd) = None"
  shows "execute ed resolveToCwd wt cwd af args w =
     Some (Inl (NotFound (notFoundMessage (path args))),
           logged [Resolve (path args) cwd, Exists (resolveToCwd (path args) cwd)] w)"
  using assms by (simp add: execute_def Let_def)

lemma execute_found:
  assumes "\<not> endsWith (path args) ''.ipynb''"
    and "disk w (resolveToCwd (path args) cwd) = Some rawContent"
    and "stripBom ed rawContent = (bom, content)"
  shows "execute ed resolveToCwd wt cwd af args w =
     (case replaceStage ed af (path args) (all args) (normalizeToLF ed content)
             (normalizeToLF ed (oldText args)) (normalizeToLF ed (newText args)) of
        None \<Rightarrow> None
      | Some (Inl e) \<Rightarrow>
          Some (Inl e, logged (readEvents (path args) cwd (resolveToCwd (path args) cwd)) w)
      | Some (Inr (normalizedNewContent, replacementCount)) \<Rightarrow>
          Some (finishEdit ed wt (path args) (resolveToCwd (path args) cwd) bom
                  (detectLineEnding ed content) (normalizeToLF ed content)
                  normalizedNewContent replacementCount
                  (logged (readEvents (path args) cwd (resolveToCwd (path args) cwd)) w)))"
  unfolding execute_def readEvents_def using assms by (simp add: Let_def logged_logged)

lemma writeAndReport_world:
  "\<exists>final disk'. snd (writeAndReport ed wt p a bom e c c' k w) =
      \<lparr>disk = disk', trace = trace w @ [Writethrough a final]\<rparr>"
  by (auto simp: writeAndReport_def Let_def split: prod.splits sum.splits)

lemma writeAndReport_error:
  "fst (writeAndReport ed wt p a bom e c c' k w) = Inl err \<Longrightarrow> \<exists>x. err = CollaboratorFailure x"
  by (auto simp: writeAndReport_def Let_def split: prod.splits sum.splits)

lemma finishEdit_same:
  "finishEdit ed wt p a bom e c c k w = (Inl (NoEffectiveChange (noChangeMessage p)), w)"
  by (simp add: finishEdit_def)

lemma finishEdit_changed:
  "c \<noteq> c' \<Longrightarrow> finishEdit ed wt p a bom e c c' k w = writeAndReport ed wt p a bom e c c' k w"
  by (simp add: finishEdit_def)

lemma finishEdit_error:
  assumes "finishEdit ed wt p a bom e c c' k w = (Inl err, w')"
    and "\<forall>x. err \<noteq> CollaboratorFailure x"
  shows "w' = w \<and> err = NoEffectiveChange (noChangeMessage p) \<and> c = c'"
proof (cases "c = c'")
  case True
  have "finishEdit ed wt p a bom e c c' k w = (Inl (NoEffectiveChange (noChangeMessage p)), w)"
    unfolding True [symmetric] by (rule finishEdit_same)
  from trans [OF assms(1) [symmetric] this]
  have "err = NoEffectiveChange (noChangeMessage p)" and "w' = w"
    by (simp_all only: prod.inject sum.inject)
  then show ?thesis using True by (intro conjI)
next
  case False
  have "writeAndReport ed wt p a bom e c c' k w = (Inl err, w')"
    using assms(1) finishEdit_changed [OF False] by metis
  then have "fst (writeAndReport ed wt p a bom e c c' k w) = Inl err"
    by simp
  from writeAndReport_error [OF this] show ?thesis using assms(2) by blast
qed

text \<open>
  Claim C7. A path that ends in \<^verbatim>\<open>.ipynb\<close> is refused in the first statement of
  \<open>execute\<close>: the outcome is the unsupported-format error whatever the file
  system holds, also when the file does not exist, and the world is returned as it
  was: no path has been resolved, nothing asked, read or written.
\<close>

theorem notebook_rejected_before_io:
  assumes "endsWith (path args) ''.ipynb''"
  shows "execute ed resolveToCwd wt cwd af args w
           = Some (Inl (UnsupportedFormat notebookMessage), w)"
  using assms by (rule execute_notebook)

text \<open>
  Claim C8. When \<open>execute\<close> fails with an error of its own (any error but the one
  the writethrough callback threw), the file system is what it was before the call
  and the trace of the call holds no writethrough.
\<close>

theorem edit_error_atomic:
  assumes "execute ed resolveToCwd wt cwd af args w = Some (Inl err, w')"
    and "\<forall>x. err \<noteq> CollaboratorFailure x"
  shows "disk w' = disk w
     \<and> (\<exists>evs. trace w' = trace w @ evs \<and> (\<forall>p c. Writethrough p c \<notin> set evs))"
proof (cases "endsWith (path args) ''.ipynb''")
  case True
  then have "w' = w" using assms(1) by (simp add: execute_notebook)
  then show ?thesis by simp
next
  case notNb: False
  let ?abs = "resolveToCwd (path args) cwd"
  show ?thesis
  proof (cases "disk w ?abs")
    case None
    then have "w' = logged [Resolve (path args) cwd, Exists ?abs] w"
      using assms(1) notNb by (simp add: execute_missing)
    then show ?thesis by (simp add: logged_fields)
  next
    case (Some rawContent)
    obtain bom content where sb: "stripBom ed rawContent = (bom, content)"
      by (cases "stripBom ed rawContent")
    let ?w = "logged (readEvents (path args) cwd ?abs) w"
    have ok: "disk ?w = disk w \<and> (\<exists>evs. trace ?w = trace w @ evs \<and> (\<forall>p c. Writethrough p c \<notin> set evs))"
      by (simp add: logged_fields readEvents_def)
    note ex = execute_found [where resolveToCwd = resolveToCwd and cwd = cwd, OF notNb Some sb,
        of wt af]
    show ?thesis
    proof (cases "replaceStage ed af (path args) (all args) (normalizeToLF ed content)
             (normalizeToLF ed (oldText args)) (normalizeToLF ed (newText args))")
      case None
      then have "execute ed resolveToCwd wt cwd af args w = None" by (simp add: ex)
      then show ?thesis using assms(1) by simp
    next
      case (Some r)
      show ?thesis
      proof (cases r)
        case (Inl e)
        then have "execute ed resolveToCwd wt cwd af args w = Some (Inl e, ?w)"
          by (simp add: ex Some)
        then have "w' = ?w" using assms(1) by simp
        then show ?thesis using ok by simp
      next
        case (Inr ck)
        obtain c' k where ck: "ck = (c', k)" by (cases ck)
        have "execute ed resolveToCwd wt cwd af args w =
              Some (finishEdit ed wt (path args) ?abs bom (detectLineEnding ed content)
                (normalizeToLF ed content) c' k ?w)"
          by (simp add: ex Some Inr ck)
        then have "finishEdit ed wt (path args) ?abs bom (detectLineEnding ed content)
                (normalizeToLF ed content) c' k ?w = (Inl err, w')"
          using assms(1) by simp
        from finishEdit_error [OF this assms(2)] have "w' = ?w" by simp
        then show ?thesis using ok by simp
      qed
    qed
  qed
qed

text \<open>
  The comparison of lines 151 to 156, on the calls whose replacement stage returns
  a content: when that content is the normalized content as it was, \<open>execute\<close>
  fails with the no-change error, before any write; and whenever \<open>execute\<close>
  reports success the content after replacement differs from the normalized content
  before it.
\<close>

theorem no_effective_change_rejected:
  assumes "\<not> endsWith (path args) ''.ipynb''"
    and "disk w (resolveToCwd (path args) cwd) = Some rawContent"
    and "stripBom ed rawContent = (bom, content)"
    and "replaceStage ed af (path args) (all args) (normalizeToLF ed content)
           (normalizeToLF ed (oldText args)) (normalizeToLF ed (newText args))
         = Some (Inr (normalizedNewContent, replacementCount))"
  shows "(normalizedNewContent = normalizeToLF ed content \<longrightarrow>
            execute ed resolveToCwd wt cwd af args w =
              Some (Inl (NoEffectiveChange (noChangeMessage (path args))),
                    logged (readEvents (path args) cwd (resolveToCwd (path args) cwd)) w))
       \<and> (\<forall>res w'. execute ed resolveToCwd wt cwd af args w = Some (Inr res, w') \<longrightarrow>
            normalizedNewContent \<noteq> normalizeToLF ed content)"
proof -
  let ?w = "logged (readEvents (path args) cwd (resolveToCwd (path args) cwd)) w"
  have ex: "execute ed resolveToCwd wt cwd af args w =
      Some (finishEdit ed wt (path args) (resolveToCwd (path args) cwd) bom
              (detectLineEnding ed content) (normalizeToLF ed content)
              normalizedNewContent replacementCount ?w)"
    by (simp add: execute_found [where resolveToCwd = resolveToCwd and cwd = cwd,
          OF assms(1,2,3)] assms(4))
  show ?thesis unfolding ex by (simp add: finishEdit_def)
qed

text \<open>
  The replacement stage always returns in single mode, and in replace-all mode
  when there is an exact occurrence: the loop is not entered.
\<close>

lemma replaceStage_returns_outside_loop:
  assumes "all args \<noteq> Some True
         \<or> 0 < exactCount (normalizeToLF ed content) (normalizeToLF ed (oldText args))"
  shows "replaceStage ed af (path args) (all args) (normalizeToLF ed content)
           (normalizeToLF ed (oldText args)) (normalizeToLF ed (newText args)) \<noteq> None"
  using assms by (auto simp: replaceStage_def replaceAllMode_def)

text \<open>
  In replace-all mode without an exact occurrence, a first replacement that puts
  back the content as it was is never compared at line 152: the loop matches the
  same content again, and \<open>execute\<close> does not return.
\<close>

lemma execute_no_op_replace_all:
  assumes "\<not> endsWith (path args) ''.ipynb''"
    and "disk w (resolveToCwd (path args) cwd) = Some rawContent"
    and "stripBom ed rawContent = (bom, content)"
    and "all args = Some True"
    and "exactCount (normalizeToLF ed content) (normalizeToLF ed (oldText args)) \<le> 0"
    and "loopMatch ed af (normalizeToLF ed (oldText args)) (normalizeToLF ed content) = Some m"
    and "splice (normalizeToLF ed content) m (normalizeToLF ed (newText args))
           = normalizeToLF ed content"
  shows "execute ed resolveToCwd wt cwd af args w = None"
proof -
  have "replaceStage ed af (path args) (all args) (normalizeToLF ed content)
           (normalizeToLF ed (oldText args)) (normalizeToLF ed (newText args)) = None"
    using assms(5) fuzzyLoop_fixed_content [OF assms(6,7), of "path args" 0]
    by (simp add: replaceStage_def replaceAllMode_def assms(4))
  then show ?thesis
    by (simp add: execute_found [where resolveToCwd = resolveToCwd and cwd = cwd,
          OF assms(1,2,3)])
qed

lemma loopMatch_None_match:
  "loopMatch ed af old c = None \<Longrightarrow>
     match (findEditMatch ed c old af (DEFAULT_FUZZY_THRESHOLD ed)) = None"
  by (simp add: loopMatch_def allModeMatch_def split: option.splits)

lemma contentAfter_pos_match:
  "contentAfter ed af old new k c = Some c' \<Longrightarrow> 0 < k \<Longrightarrow> loopMatch ed af old c \<noteq> None"
  by (cases k) (auto split: option.splits)

lemma replaceSingleMode_no_match:
  assumes "loopMatch ed af old c = None"
    and "case occurrences (findEditMatch ed c old af (DEFAULT_FUZZY_THRESHOLD ed)) of
           None \<Rightarrow> True | Some n \<Rightarrow> n \<le> 1"
  shows "replaceSingleMode ed af p c old new =
     Inl (editMatchError ed af p old (findEditMatch ed c old af (DEFAULT_FUZZY_THRESHOLD ed)))"
  using assms(2) loopMatch_None_match [OF assms(1)]
  by (auto simp: replaceSingleMode_def requireMatch_def Let_def split: option.splits)

lemma replaceAllMode_fuzzy:
  assumes "exactCount c old \<le> 0"
    and "contentAfter ed af old new k c = Some c'" and "loopMatch ed af old c' = None"
  shows "replaceAllMode ed af p c old new = Some (loopExit ed af p old c' k)"
  using assms(1) fuzzyLoop_halts_after [OF assms(2,3), of p 0]
  by (simp add: replaceAllMode_def)

text \<open>
  Claim C4. Replace-all mode, no exact occurrence, and the loop leaves after \<open>k\<close>
  replacements (the content after \<open>k\<close> replacements has no match). With \<open>k = 0\<close>
  the call fails with the \<^verbatim>\<open>EditMatchError\<close> built from the outcome for the
  unchanged content, and single mode fails in the same way on the same input
  (unless the match engine reports several occurrences, which single mode refuses
  first). With \<open>k > 0\<close> the content has changed, the final content goes to the
  writethrough callback with the count \<open>k\<close>, and the call succeeds when the
  callback does.
\<close>

theorem replace_all_fuzzy_outcome:
  assumes "\<not> endsWith (path args) ''.ipynb''"
    and "disk w (resolveToCwd (path args) cwd) = Some rawContent"
    and "stripBom ed rawContent = (bom, content)"
    and "all args = Some True"
    and "exactCount (normalizeToLF ed content) (normalizeToLF ed (oldText args)) \<le> 0"
    and "contentAfter ed af (normalizeToLF ed (oldText args)) (normalizeToLF ed (newText args))
           k (normalizeToLF ed content) = Some c'"
    and "loopMatch ed af (normalizeToLF ed (oldText args)) c' = None"
  shows "(k = 0 \<longrightarrow>
            execute ed resolveToCwd wt cwd af args w =
              Some (Inl (editMatchError ed af (path args) (normalizeToLF ed (oldText args))
                      (findEditMatch ed (normalizeToLF ed content)
                         (normalizeToLF ed (oldText args)) af (DEFAULT_FUZZY_THRESHOLD ed))),
                    logged (readEvents (path args) cwd (resolveToCwd (path args) cwd)) w)
          \<and> ((case occurrences (findEditMatch ed (normalizeToLF ed content)
                         (normalizeToLF ed (oldText args)) af (DEFAULT_FUZZY_THRESHOLD ed)) of
                 None \<Rightarrow> True | Some n \<Rightarrow> n \<le> 1) \<longrightarrow>
               execute ed resolveToCwd wt cwd af (args\<lparr>all := Some False\<rparr>) w =
               execute ed resolveToCwd wt cwd af args w))
       \<and> (0 < k \<longrightarrow>
            c' \<noteq> normalizeToLF ed content
          \<and> execute ed resolveToCwd wt cwd af args w =
              Some (writeAndReport ed wt (path args) (resolveToCwd (path args) cwd) bom
                      (detectLineEnding ed content) (normalizeToLF ed content) c' k
                      (logged (readEvents (path args) cwd (resolveToCwd (path args) cwd)) w))
          \<and> (\<forall>dg disk'.
                wt (resolveToCwd (path args) cwd)
                   (bom @ restoreLineEndings ed c' (detectLineEnding ed content)) (disk w)
                  = (Inr dg, disk') \<longrightarrow>
                (\<exists>res w'. execute ed resolveToCwd wt cwd af args w = Some (Inr res, w')
                    \<and> resultText res = buildResultText k (path args) dg
                    \<and> disk w' = disk')))"
proof -
  let ?c = "normalizeToLF ed content"
  let ?old = "normalizeToLF ed (oldText args)"
  let ?new = "normalizeToLF ed (newText args)"
  let ?abs = "resolveToCwd (path args) cwd"
  let ?w = "logged (readEvents (path args) cwd ?abs) w"
  let ?mo = "findEditMatch ed ?c ?old af (DEFAULT_FUZZY_THRESHOLD ed)"
  note found = execute_found [where resolveToCwd = resolveToCwd and cwd = cwd,
      OF assms(1,2,3)]
  have stage: "replaceStage ed af (path args) (all args) ?c ?old ?new
                 = Some (loopExit ed af (path args) ?old c' k)"
    using replaceAllMode_fuzzy [OF assms(5,6,7)] assms(4) by (simp add: replaceStage_def)
  have zero: "execute ed resolveToCwd wt cwd af args w =
                Some (Inl (editMatchError ed af (path args) ?old ?mo), ?w)
      \<and> ((case occurrences ?mo of None \<Rightarrow> True | Some n \<Rightarrow> n \<le> 1) \<longrightarrow>
           execute ed resolveToCwd wt cwd af (args\<lparr>all := Some False\<rparr>) w =
           execute ed resolveToCwd wt cwd af args w)"
    if k0: "k = 0"
  proof -
    have c': "c' = ?c" using assms(6) k0 by simp
    have e1: "execute ed resolveToCwd wt cwd af args w =
                Some (Inl (editMatchError ed af (path args) ?old ?mo), ?w)"
      by (simp add: found stage loopExit_def k0 c')
    have e2: "execute ed resolveToCwd wt cwd af (args\<lparr>all := Some False\<rparr>) w =
                Some (Inl (editMatchError ed af (path args) ?old ?mo), ?w)"
      if occ: "case occurrences ?mo of None \<Rightarrow> True | Some n \<Rightarrow> n \<le> 1"
    proof -
      have a1: "\<not> endsWith (path (args\<lparr>all := Some False\<rparr>)) ''.ipynb''"
        using assms(1) by simp
      have a2: "disk w (resolveToCwd (path (args\<lparr>all := Some False\<rparr>)) cwd) = Some rawContent"
        using assms(2) by simp
      have single: "replaceSingleMode ed af (path args) ?c ?old ?new =
                      Inl (editMatchError ed af (path args) ?old ?mo)"
        using replaceSingleMode_no_match [of ed af ?old ?c "path args" ?new] assms(7) occ c'
        by simp
      show ?thesis
        using execute_found [where resolveToCwd = resolveToCwd and cwd = cwd,
            OF a1 a2 assms(3), of wt af]
        by (simp add: replaceStage_def single)
    qed
    show ?thesis using e1 e2 by simp
  qed
  have pos: "c' \<noteq> ?c
      \<and> execute ed resolveToCwd wt cwd af args w =
          Some (writeAndReport ed wt (path args) ?abs bom (detectLineEnding ed content) ?c c' k ?w)
      \<and> (\<forall>dg disk'.
            wt ?abs (bom @ restoreLineEndings ed c' (detectLineEnding ed content)) (disk w)
              = (Inr dg, disk') \<longrightarrow>
            (\<exists>res w'. execute ed resolveToCwd wt cwd af args w = Some (Inr res, w')
                \<and> resultText res = buildResultText k (path args) dg
                \<and> disk w' = disk'))"
    if kp: "0 < k"
  proof -
    have ne: "c' \<noteq> ?c"
      using contentAfter_pos_match [OF assms(6) kp] assms(7) by auto
    have e: "execute ed resolveToCwd wt cwd af args w =
          Some (writeAndReport ed wt (path args) ?abs bom (detectLineEnding ed content) ?c c' k ?w)"
      using kp ne by (simp add: found stage loopExit_def finishEdit_def)
    have r: "\<exists>res w'. execute ed resolveToCwd wt cwd af args w = Some (Inr res, w')
                \<and> resultText res = buildResultText k (path args) dg
                \<and> disk w' = disk'"
      if "wt ?abs (bom @ restoreLineEndings ed c' (detectLineEnding ed content)) (disk w)
              = (Inr dg, disk')" for dg disk'
      unfolding e using that by (simp add: writeAndReport_def Let_def logged_fields)
    show ?thesis using ne e r by blast
  qed
  show ?thesis using zero pos by blast
qed

text \<open>
  Claim C5, as the code has it. The loop has no bound on its iterations. It returns
  exactly when, after some number of replacements, the match engine finds no match
  in the content reached; where every content reached has a match it runs for
  ever.
\<close>

theorem fuzzy_loop_halts_iff:
  "(\<exists>r. fuzzyLoop ed af p old new c n = Some r)
     = (\<exists>k c'. contentAfter ed af old new k c = Some c' \<and> loopMatch ed af old c' = None)"
proof
  assume "\<exists>r. fuzzyLoop ed af p old new c n = Some r"
  then obtain r where "fuzzyLoop ed af p old new c n = Some r" ..
  from fuzzyLoop_result [OF this]
  show "\<exists>k c'. contentAfter ed af old new k c = Some c' \<and> loopMatch ed af old c' = None"
    by blast
next
  assume "\<exists>k c'. contentAfter ed af old new k c = Some c' \<and> loopMatch ed af old c' = None"
  then obtain k c' where "contentAfter ed af old new k c = Some c'"
    and "loopMatch ed af old c' = None" by blast
  from fuzzyLoop_halts_after [OF this, of p n]
  show "\<exists>r. fuzzyLoop ed af p old new c n = Some r" by blast
qed

subsection \<open>Split and join replace every occurrence\<close>

lemma splitOn_Nil: "splitOn sep acc [] = [rev acc]"
  by (subst splitOn.simps) simp

lemma splitOn_match:
  "s \<noteq> [] \<Longrightarrow> sep \<noteq> [] \<Longrightarrow> prefix sep s \<Longrightarrow>
     splitOn sep acc s = rev acc # splitOn sep [] (drop (length sep) s)"
  by (subst splitOn.simps) simp

lemma splitOn_skip:
  "s \<noteq> [] \<Longrightarrow> \<not> (sep \<noteq> [] \<and> prefix sep s) \<Longrightarrow>
     splitOn sep acc s = splitOn sep (hd s # acc) (tl s)"
  by (subst splitOn.simps) auto

lemma specReplaceEvery_Nil: "specReplaceEvery sep new [] = []"
  by (subst specReplaceEvery.simps) simp

lemma specReplaceEvery_match:
  "s \<noteq> [] \<Longrightarrow> sep \<noteq> [] \<Longrightarrow> prefix sep s \<Longrightarrow>
     specReplaceEvery sep new s = new @ specReplaceEvery sep new (drop (length sep) s)"
  by (subst specReplaceEvery.simps) simp

lemma specReplaceEvery_skip:
  "s \<noteq> [] \<Longrightarrow> sep \<noteq> [] \<Longrightarrow> \<not> prefix sep s \<Longrightarrow>
     specReplaceEvery sep new s = hd s # specReplaceEvery sep new (tl s)"
  by (subst specReplaceEvery.simps) simp

lemma occurrencesFrom_Nil: "occurrencesFrom sep i [] = []"
  by (subst occurrencesFrom.simps) simp

lemma occurrencesFrom_match:
  "s \<noteq> [] \<Longrightarrow> sep \<noteq> [] \<Longrightarrow> prefix sep s \<Longrightarrow>
     occurrencesFrom sep i s = i # occurrencesFrom sep (i + length sep) (drop (length sep) s)"
  by (subst occurrencesFrom.simps) simp

lemma occurrencesFrom_skip:
  "s \<noteq> [] \<Longrightarrow> sep \<noteq> [] \<Longrightarrow> \<not> prefix sep s \<Longrightarrow>
     occurrencesFrom sep i s = occurrencesFrom sep (i + 1) (tl s)"
  by (subst occurrencesFrom.simps) simp

lemma splitOn_nonempty: "splitOn sep acc s \<noteq> []"
proof (induction sep acc s rule: splitOn.induct)
  case (1 sep acc s)
  show ?case
  proof (cases "s = []")
    case True
    then show ?thesis by (simp add: splitOn_Nil)
  next
    case ne: False
    show ?thesis
    proof (cases "sep \<noteq> [] \<and> prefix sep s")
      case True
      then show ?thesis using ne by (simp add: splitOn_match)
    next
      case False
      then show ?thesis using ne "1.IH"(2) by (simp add: splitOn_skip)
    qed
  qed
qed

lemma jsJoin_Cons: "xs \<noteq> [] \<Longrightarrow> jsJoin (x # xs) sep = x @ sep @ jsJoin xs sep"
  by (cases xs) simp_all

lemma splitOn_join:
  "sep \<noteq> [] \<Longrightarrow> jsJoin (splitOn sep acc s) new = rev acc @ specReplaceEvery sep new s"
proof (induction sep acc s rule: splitOn.induct)
  case (1 sep acc s)
  show ?case
  proof (cases "s = []")
    case True
    then show ?thesis by (simp add: splitOn_Nil specReplaceEvery_Nil)
  next
    case ne: False
    show ?thesis
    proof (cases "prefix sep s")
      case True
      have "jsJoin (splitOn sep acc s) new =
            rev acc @ new @ jsJoin (splitOn sep [] (drop (length sep) s)) new"
        using ne True "1.prems" by (simp add: splitOn_match jsJoin_Cons splitOn_nonempty)
      also have "jsJoin (splitOn sep [] (drop (length sep) s)) new =
                 specReplaceEvery sep new (drop (length sep) s)"
        using "1.IH"(1) [OF ne _ "1.prems"] True "1.prems" by simp
      also have "new @ specReplaceEvery sep new (drop (length sep) s) = specReplaceEvery sep new s"
        using ne True "1.prems" by (simp add: specReplaceEvery_match)
      finally show ?thesis .
    next
      case False
      have "jsJoin (splitOn sep acc s) new = jsJoin (splitOn sep (hd s # acc) (tl s)) new"
        using ne False by (simp add: splitOn_skip)
      also have "\<dots> = rev (hd s # acc) @ specReplaceEvery sep new (tl s)"
        using "1.IH"(2) [OF ne _ "1.prems"] False by simp
      also have "\<dots> = rev acc @ specReplaceEvery sep new s"
        using ne False "1.prems" by (simp add: specReplaceEvery_skip)
      finally show ?thesis .
    qed
  qed
qed

lemma splitOn_length:
  "sep \<noteq> [] \<Longrightarrow> length (splitOn sep acc s) = Suc (length (occurrencesFrom sep i s))"
proof (induction sep acc s arbitrary: i rule: splitOn.induct)
  case (1 sep acc s)
  show ?case
  proof (cases "s = []")
    case True
    then show ?thesis by (simp add: splitOn_Nil occurrencesFrom_Nil)
  next
    case ne: False
    show ?thesis
    proof (cases "prefix sep s")
      case True
      have "length (splitOn sep acc s) = Suc (length (splitOn sep [] (drop (length sep) s)))"
        using ne True "1.prems" by (simp add: splitOn_match)
      also have "length (splitOn sep [] (drop (length sep) s)) =
                 Suc (length (occurrencesFrom sep (i + length sep) (drop (length sep) s)))"
        using "1.IH"(1) [OF ne _ "1.prems"] True "1.prems" by simp
      also have "Suc (length (occurrencesFrom sep (i + length sep) (drop (length sep) s))) =
                 length (occurrencesFrom sep i s)"
        using ne True "1.prems" by (simp add: occurrencesFrom_match)
      finally show ?thesis .
    next
      case False
      have "length (splitOn sep acc s) = length (splitOn sep (hd s # acc) (tl s))"
        using ne False by (simp add: splitOn_skip)
      also have "\<dots> = Suc (length (occurrencesFrom sep (i + 1) (tl s)))"
        using "1.IH"(2) [OF ne _ "1.prems"] False by simp
      also have "occurrencesFrom sep (i + 1) (tl s) = occurrencesFrom sep i s"
        using ne False "1.prems" by (simp add: occurrencesFrom_skip)
      finally show ?thesis .
    qed
  qed
qed

lemma split_join_replaces_every:
  "old \<noteq> [] \<Longrightarrow> jsJoin (jsSplit c old) new = specReplaceEvery old new c"
  by (simp add: jsSplit_def splitOn_join)

lemma exactCount_occurrences:
  "old \<noteq> [] \<Longrightarrow> exactCount c old = int (length (exactOccurrences c old))"
  by (simp add: exactCount_def jsSplit_def exactOccurrences_def splitOn_length [of old "[]" c 0])

lemma finishEdit_matcher:
  "finishEdit (ed\<lparr>findEditMatch := fm\<rparr>) wt p a bom e c c' k w = finishEdit ed wt p a bom e c c' k w"
  by (simp add: finishEdit_def writeAndReport_def Let_def split: prod.splits sum.splits)

lemma replaceAllMode_exact:
  "0 < exactCount c old \<Longrightarrow>
     replaceAllMode ed af p c old new =
       Some (Inr (jsJoin (jsSplit c old) new, nat (exactCount c old)))"
  by (simp add: replaceAllMode_def)

text \<open>
  Claim C3. Replace-all mode with an exact count \<open>n > 0\<close>: the new content is
  \<^verbatim>\<open>split\<close> then \<^verbatim>\<open>join\<close>, the count is \<open>n\<close>; for a search text that is not
  empty this is the replacement of every non-overlapping occurrence from the left,
  and \<open>n\<close> is their number. \<open>execute\<close> goes on to the check for a change with this
  content and count, and the match engine plays no part: with any other engine in
  its place the outcome is the same.
\<close>

theorem replace_all_exact:
  assumes "\<not> endsWith (path args) ''.ipynb''"
    and "disk w (resolveToCwd (path args) cwd) = Some rawContent"
    and "stripBom ed rawContent = (bom, content)"
    and "all args = Some True"
    and "0 < exactCount (normalizeToLF ed content) (normalizeToLF ed (oldText args))"
  shows "replaceStage ed af (path args) (all args) (normalizeToLF ed content)
             (normalizeToLF ed (oldText args)) (normalizeToLF ed (newText args))
           = Some (Inr (jsJoin (jsSplit (normalizeToLF ed content) (normalizeToLF ed (oldText args)))
                          (normalizeToLF ed (newText args)),
                        nat (exactCount (normalizeToLF ed content) (normalizeToLF ed (oldText args)))))
     \<and> (normalizeToLF ed (oldText args) \<noteq> [] \<longrightarrow>
          jsJoin (jsSplit (normalizeToLF ed content) (normalizeToLF ed (oldText args)))
            (normalizeToLF ed (newText args))
            = specReplaceEvery (normalizeToLF ed (oldText args)) (normalizeToLF ed (newText args))
                (normalizeToLF ed content)
        \<and> nat (exactCount (normalizeToLF ed content) (normalizeToLF ed (oldText args)))
            = length (exactOccurrences (normalizeToLF ed content) (normalizeToLF ed (oldText args))))
     \<and> execute ed resolveToCwd wt cwd af args w =
          Some (finishEdit ed wt (path args) (resolveToCwd (path args) cwd) bom
                  (detectLineEnding ed content) (normalizeToLF ed content)
                  (jsJoin (jsSplit (normalizeToLF ed content) (normalizeToLF ed (oldText args)))
                     (normalizeToLF ed (newText args)))
                  (nat (exactCount (normalizeToLF ed content) (normalizeToLF ed (oldText args))))
                  (logged (readEvents (path args) cwd (resolveToCwd (path args) cwd)) w))
     \<and> (\<forall>fm. execute (ed\<lparr>findEditMatch := fm\<rparr>) resolveToCwd wt cwd af args w
              = execute ed resolveToCwd wt cwd af args w)"
proof -
  let ?c = "normalizeToLF ed content"
  let ?old = "normalizeToLF ed (oldText args)"
  let ?new = "normalizeToLF ed (newText args)"
  let ?abs = "resolveToCwd (path args) cwd"
  let ?w = "logged (readEvents (path args) cwd ?abs) w"
  let ?r = "Inr (jsJoin (jsSplit ?c ?old) ?new, nat (exactCount ?c ?old))
              :: editError + string \<times> nat"
  have stage: "replaceStage ed' af (path args) (all args) ?c ?old ?new = Some ?r" for ed' :: "'a editDiff"
    using assms(4,5) by (simp add: replaceStage_def replaceAllMode_exact)
  have spec: "jsJoin (jsSplit ?c ?old) ?new = specReplaceEvery ?old ?new ?c
        \<and> nat (exactCount ?c ?old) = length (exactOccurrences ?c ?old)" if "?old \<noteq> []"
    using that by (simp add: split_join_replaces_every exactCount_occurrences)
  have ex: "execute ed resolveToCwd wt cwd af args w =
          Some (finishEdit ed wt (path args) ?abs bom (detectLineEnding ed content) ?c
                  (jsJoin (jsSplit ?c ?old) ?new) (nat (exactCount ?c ?old)) ?w)"
    by (simp add: execute_found [where resolveToCwd = resolveToCwd and cwd = cwd,
          OF assms(1,2,3)] stage)
  have indep: "execute (ed\<lparr>findEditMatch := fm\<rparr>) resolveToCwd wt cwd af args w
              = execute ed resolveToCwd wt cwd af args w" for fm
  proof -
    have sb: "stripBom (ed\<lparr>findEditMatch := fm\<rparr>) rawContent = (bom, content)"
      using assms(3) by simp
    have "execute (ed\<lparr>findEditMatch := fm\<rparr>) resolveToCwd wt cwd af args w =
          Some (finishEdit (ed\<lparr>findEditMatch := fm\<rparr>) wt (path args) ?abs bom
                  (detectLineEnding ed content) ?c
                  (jsJoin (jsSplit ?c ?old) ?new) (nat (exactCount ?c ?old)) ?w)"
      using stage [of "ed\<lparr>findEditMatch := fm\<rparr>"]
      by (simp add: execute_found [where resolveToCwd = resolveToCwd and cwd = cwd,
            OF assms(1,2) sb])
    then show ?thesis by (simp add: ex finishEdit_matcher)
  qed
  show ?thesis using stage [of ed] spec ex indep by blast
qed

lemma stripMarker_append: "stripMarker raw = (marker, content) \<Longrightarrow> marker @ content = raw"
  by (auto simp: stripMarker_def utf8Marker_def prefix_def split: if_splits)

lemma findMatch_many:
  assumes "1 < length (exactOccurrences c old)"
  shows "occurrences (findMatch ap c old af t) = Some (length (exactOccurrences c old))"
proof -
  obtain i j others where "exactOccurrences c old = i # j # others"
    using assms by (cases "exactOccurrences c old" rule: list.exhaust) (auto simp: neq_Nil_conv)
  then show ?thesis by (simp add: findMatch_def)
qed

text \<open>
  Where the code counts no exact occurrence, the match engine of the specification
  reports none either, so single mode does not take its ambiguity branch there.
\<close>

lemma findMatch_no_occurrences:
  assumes "exactCount c old \<le> 0"
  shows "occurrences (findMatch ap c old af t) = None"
proof -
  have "exactOccurrences c old = []"
  proof (cases "old = []")
    case True
    then show ?thesis
      unfolding exactOccurrences_def by (subst occurrencesFrom.simps) simp
  next
    case False
    then show ?thesis using assms by (simp add: exactCount_occurrences)
  qed
  then show ?thesis by (simp add: findMatch_def Let_def split: option.splits)
qed

text \<open>
  Claim C1. Single mode, with the match engine of the specification: when the
  search text occurs more than once in the normalized content, \<open>execute\<close> fails
  with the ambiguity error, whose message carries the number of occurrences, and
  the file system is untouched: the calls made are the resolution of the path, the
  existence check and the read.
\<close>

theorem ambiguous_match_rejected:
  assumes "\<not> endsWith (path args) ''.ipynb''"
    and "disk w (resolveToCwd (path args) cwd) = Some rawContent"
    and "all args \<noteq> Some True"
    and "normalize rawContent = (marker, c, kind)"
    and "1 < length (exactOccurrences c (canonicalize (oldText args)))"
  shows "execute (specEditDiff ap threshold differ) resolveToCwd wt cwd af args w
      = Some (Inl (AmbiguousMatch
                (ambiguousMessage (length (exactOccurrences c (canonicalize (oldText args))))
                   (path args))),
              logged (readEvents (path args) cwd (resolveToCwd (path args) cwd)) w)"
proof -
  let ?ed = "specEditDiff ap threshold differ"
  obtain content where sm: "stripMarker rawContent = (marker, content)"
    and c: "c = canonicalize content"
    using assms(4) by (auto simp: normalize_def split: prod.splits)
  have sb: "stripBom ?ed rawContent = (marker, content)"
    using sm by (simp add: specEditDiff_def)
  have n: "normalizeToLF ?ed = canonicalize" "findEditMatch ?ed = findMatch ap"
    by (simp_all add: specEditDiff_def)
  have "replaceSingleMode ?ed af (path args) c (canonicalize (oldText args))
          (canonicalize (newText args))
        = Inl (AmbiguousMatch
                (ambiguousMessage (length (exactOccurrences c (canonicalize (oldText args))))
                   (path args)))"
    using assms(5) findMatch_many [OF assms(5)]
    by (simp add: replaceSingleMode_def n Let_def)
  then show ?thesis
    using assms(3)
    by (simp add: execute_found [where resolveToCwd = resolveToCwd and cwd = cwd,
          OF assms(1,2) sb] n c replaceStage_def)
qed

subsection \<open>Normalization and restoration\<close>

lemma canonicalize_no_crlf: "countCRLF s = 0 \<Longrightarrow> canonicalize s = s"
  by (induction s rule: canonicalize.induct) (auto split: if_splits)

lemma expand_canonicalize: "countLF s = 0 \<Longrightarrow> expandLF (canonicalize s) = s"
  by (induction s rule: canonicalize.induct) (auto split: if_splits)

lemma length_canonicalize: "length (canonicalize s) + countCRLF s = length s"
  by (induction s rule: canonicalize.induct) auto

lemma length_expandLF: "length (expandLF t) = length t + count_list t (CHR 0x0A)"
  by (induction t) auto

lemma count_canonicalize: "count_list (canonicalize s) (CHR 0x0A) = countCRLF s + countLF s"
  by (induction s rule: canonicalize.induct) auto

lemma reexpand_uniform:
  "detectKind s = Uniform conv \<Longrightarrow> reexpand (canonicalize s) (detectKind s) = s"
  by (auto simp: detectKind_def reexpand_def canonicalize_no_crlf expand_canonicalize
      split: if_splits)

lemma reexpand_mixed:
  assumes "detectKind s = Mixed conv"
  shows "length (reexpand (canonicalize s) (detectKind s)) \<noteq> length s"
proof -
  have pos: "0 < countCRLF s" "0 < countLF s"
    using assms by (auto simp: detectKind_def split: if_splits)
  have l: "length (canonicalize s) + countCRLF s = length s" by (rule length_canonicalize)
  show ?thesis
  proof (cases conv)
    case LinefeedOnly
    then show ?thesis using assms pos l by (simp add: reexpand_def)
  next
    case CarriageReturnLinefeed
    then show ?thesis
      using assms pos l by (simp add: reexpand_def length_expandLF count_canonicalize)
  qed
qed

lemma roundTrip_eq:
  "stripMarker raw = (marker, content) \<Longrightarrow>
     roundTrip raw = marker @ reexpand (canonicalize content) (detectKind content)"
  by (simp add: roundTrip_def normalize_def restore_def)

text \<open>
  Claim C6, as the specification's normalizer has it. Content whose terminators
  are all of one kind (or that has none, as the empty file) is given back byte for
  byte, marker included; content that mixes the two kinds is not given back as it
  was.
\<close>

theorem round_trip_uniform:
  "(\<forall>marker c conv. normalize rawContent = (marker, c, Uniform conv) \<longrightarrow>
       restore c marker (Uniform conv) = rawContent)
   \<and> (\<forall>marker c conv. normalize rawContent = (marker, c, Mixed conv) \<longrightarrow>
       restore c marker (Mixed conv) \<noteq> rawContent)
   \<and> normalize [] = ([], [], Uniform LinefeedOnly)"
proof -
  obtain m content where sm: "stripMarker rawContent = (m, content)"
    by (cases "stripMarker rawContent")
  have raw: "m @ content = rawContent" using sm by (rule stripMarker_append)
  have n: "normalize rawContent = (m, canonicalize content, detectKind content)"
    by (simp add: normalize_def sm)
  have u: "restore c marker (Uniform conv) = rawContent"
    if "normalize rawContent = (marker, c, Uniform conv)" for marker c conv
  proof -
    from that n have e: "marker = m" "c = canonicalize content" "detectKind content = Uniform conv"
      by simp_all
    show ?thesis
      using reexpand_uniform [OF e(3)] raw by (simp add: restore_def e)
  qed
  have x: "restore c marker (Mixed conv) \<noteq> rawContent"
    if "normalize rawContent = (marker, c, Mixed conv)" for marker c conv
  proof -
    from that n have e: "marker = m" "c = canonicalize content" "detectKind content = Mixed conv"
      by simp_all
    have "length (reexpand (canonicalize content) (Mixed conv)) \<noteq> length content"
      using reexpand_mixed [OF e(3)] by (simp add: e(3))
    then have "length (restore c marker (Mixed conv)) \<noteq> length rawContent"
      by (simp add: restore_def e raw [symmetric])
    then show ?thesis by auto
  qed
  have z: "normalize [] = ([], [], Uniform LinefeedOnly)"
    by (simp add: normalize_def stripMarker_def utf8Marker_def detectKind_def)
  show ?thesis using u x z by blast
qed

lemma mixed_example:
  "normalize [CHR ''a'', CHR 0x0D, CHR 0x0A, CHR ''b'', CHR 0x0A]
     = ([], [CHR ''a'', CHR 0x0A, CHR ''b'', CHR 0x0A], Mixed LinefeedOnly)"
  by (simp add: normalize_def stripMarker_def utf8Marker_def detectKind_def)

text \<open>
  Claim C6 as stated fails on a file with one terminator of each kind.
\<close>

theorem round_trip_mixed_counterexample:
  "roundTrip [CHR ''a'', CHR 0x0D, CHR 0x0A, CHR ''b'', CHR 0x0A]
     \<noteq> [CHR ''a'', CHR 0x0D, CHR 0x0A, CHR ''b'', CHR 0x0A]"
  by (simp add: roundTrip_def mixed_example restore_def reexpand_def)

lemma crlf_example:
  "normalize ([CHR 0xEF, CHR 0xBB, CHR 0xBF] @ [CHR ''a'', CHR 0x0D, CHR 0x0A, CHR ''b'', CHR 0x0D, CHR 0x0A])
     = ([CHR 0xEF, CHR 0xBB, CHR 0xBF], [CHR ''a'', CHR 0x0A, CHR ''b'', CHR 0x0A],
        Uniform CarriageReturnLinefeed)"
  by (simp add: normalize_def stripMarker_def utf8Marker_def detectKind_def)

theorem round_trip_uniform_witness:
  "normalize ([CHR 0xEF, CHR 0xBB, CHR 0xBF] @ [CHR ''a'', CHR 0x0D, CHR 0x0A, CHR ''b'', CHR 0x0D, CHR 0x0A])
     = ([CHR 0xEF, CHR 0xBB, CHR 0xBF], [CHR ''a'', CHR 0x0A, CHR ''b'', CHR 0x0A],
        Uniform CarriageReturnLinefeed)
   \<and> restore [CHR ''a'', CHR 0x0A, CHR ''b'', CHR 0x0A] [CHR 0xEF, CHR 0xBB, CHR 0xBF]
        (Uniform CarriageReturnLinefeed)
     = [CHR 0xEF, CHR 0xBB, CHR 0xBF] @ [CHR ''a'', CHR 0x0D, CHR 0x0A, CHR ''b'', CHR 0x0D, CHR 0x0A]
   \<and> normalize [CHR ''a'', CHR 0x0D, CHR 0x0A, CHR ''b'', CHR 0x0A]
     = ([], [CHR ''a'', CHR 0x0A, CHR ''b'', CHR 0x0A], Mixed LinefeedOnly)
   \<and> restore [CHR ''a'', CHR 0x0A, CHR ''b'', CHR 0x0A] [] (Mixed LinefeedOnly)
     \<noteq> [CHR ''a'', CHR 0x0D, CHR 0x0A, CHR ''b'', CHR 0x0A]"
proof -
  from round_trip_uniform
    [of "[CHR 0xEF, CHR 0xBB, CHR 0xBF] @ [CHR ''a'', CHR 0x0D, CHR 0x0A, CHR ''b'', CHR 0x0D, CHR 0x0A]"]
  have u: "restore [CHR ''a'', CHR 0x0A, CHR ''b'', CHR 0x0A] [CHR 0xEF, CHR 0xBB, CHR 0xBF]
        (Uniform CarriageReturnLinefeed)
     = [CHR 0xEF, CHR 0xBB, CHR 0xBF] @ [CHR ''a'', CHR 0x0D, CHR 0x0A, CHR ''b'', CHR 0x0D, CHR 0x0A]"
    using crlf_example by blast
  from round_trip_uniform [of "[CHR ''a'', CHR 0x0D, CHR 0x0A, CHR ''b'', CHR 0x0A]"]
  have x: "restore [CHR ''a'', CHR 0x0A, CHR ''b'', CHR 0x0A] [] (Mixed LinefeedOnly)
     \<noteq> [CHR ''a'', CHR 0x0D, CHR 0x0A, CHR ''b'', CHR 0x0A]"
    using mixed_example by blast
  show ?thesis using crlf_example mixed_example u x by (intro conjI)
qed

section \<open>Worked instances\<close>

lemma example_path: "\<not> endsWith (path (editOf old new allFlag)) ''.ipynb''"
  by (simp add: editOf_def endsWith_def suffix_to_prefix)

lemma example_disk:
  "disk (worldWith content) (exampleResolve (path (editOf old new allFlag)) ''/w'') = Some content"
  by (simp add: worldWith_def exampleResolve_def editOf_def)

lemma example_read:
  "logged (readEvents (path (editOf old new allFlag)) ''/w''
       (exampleResolve (path (editOf old new allFlag)) ''/w'')) (worldWith content)
   = \<lparr>disk = [''/w/f.txt'' \<mapsto> content],
      trace = [Resolve ''f.txt'' ''/w'', Exists ''/w/f.txt'', ReadText ''/w/f.txt'']\<rparr>"
  by (simp add: logged_def readEvents_def worldWith_def exampleResolve_def editOf_def)

theorem notebook_rejected_before_io_witness:
  "endsWith (path \<lparr>path = ''nb.ipynb'', oldText = ''a'', newText = ''b'', all = None\<rparr>) ''.ipynb''
   \<and> execute exampleEditDiff exampleResolve writeOnly ''/w'' True
        \<lparr>path = ''nb.ipynb'', oldText = ''a'', newText = ''b'', all = None\<rparr>
        \<lparr>disk = Map.empty, trace = []\<rparr>
      = Some (Inl (UnsupportedFormat notebookMessage), \<lparr>disk = Map.empty, trace = []\<rparr>)"
proof -
  have h: "endsWith (path \<lparr>path = ''nb.ipynb'', oldText = ''a'', newText = ''b'', all = None\<rparr>)
             ''.ipynb''"
    by (simp add: endsWith_def suffix_to_prefix)
  from notebook_rejected_before_io [OF h] show ?thesis using h by (intro conjI)
qed

lemma example_resolve: "exampleResolve ''f.txt'' ''/w'' = ''/w/f.txt''"
  by (simp add: exampleResolve_def)

lemma example_read':
  "logged (readEvents ''f.txt'' ''/w'' ''/w/f.txt'') (worldWith content)
   = \<lparr>disk = [''/w/f.txt'' \<mapsto> content],
      trace = [Resolve ''f.txt'' ''/w'', Exists ''/w/f.txt'', ReadText ''/w/f.txt'']\<rparr>"
  by (simp add: logged_def readEvents_def worldWith_def)

lemma example_normalize:
  "normalize twoAssignments = ([], twoAssignments, Uniform LinefeedOnly)"
  by code_simp

theorem ambiguous_match_rejected_witness:
  "\<not> endsWith (path (editOf ''x=1'' ''x=2'' None)) ''.ipynb''
   \<and> disk (worldWith twoAssignments)
        (exampleResolve (path (editOf ''x=1'' ''x=2'' None)) ''/w'') = Some twoAssignments
   \<and> all (editOf ''x=1'' ''x=2'' None) \<noteq> Some True
   \<and> normalize twoAssignments = ([], twoAssignments, Uniform LinefeedOnly)
   \<and> length (exactOccurrences twoAssignments (canonicalize (oldText (editOf ''x=1'' ''x=2'' None)))) = 2
   \<and> execute exampleEditDiff exampleResolve writeOnly ''/w'' True (editOf ''x=1'' ''x=2'' None)
        (worldWith twoAssignments)
      = Some (Inl (AmbiguousMatch
                (''Found 2 occurrences of the text in f.txt. The text must be unique. ''
                 @ ''Please provide more context to make it unique, or use all: true to replace all.'')),
              \<lparr>disk = [''/w/f.txt'' \<mapsto> twoAssignments],
               trace = [Resolve ''f.txt'' ''/w'', Exists ''/w/f.txt'', ReadText ''/w/f.txt'']\<rparr>)"
proof -
  let ?args = "editOf ''x=1'' ''x=2'' None"
  have h3: "all ?args \<noteq> Some True" by (simp add: editOf_def)
  have n: "length (exactOccurrences twoAssignments (canonicalize (oldText ?args))) = 2"
    by code_simp
  then have h5: "1 < length (exactOccurrences twoAssignments (canonicalize (oldText ?args)))"
    by simp
  have m: "ambiguousMessage 2 (path ?args) =
       ''Found 2 occurrences of the text in f.txt. The text must be unique. ''
       @ ''Please provide more context to make it unique, or use all: true to replace all.''"
    by code_simp
  note th = ambiguous_match_rejected [where resolveToCwd = exampleResolve and cwd = "''/w''",
      OF example_path example_disk h3 example_normalize h5,
      of exampleParams "19 / 20" "\<lambda>before after. \<lparr>diff = [], firstChangedLine = None\<rparr>"
         writeOnly True]
  have e: "execute exampleEditDiff exampleResolve writeOnly ''/w'' True ?args
        (worldWith twoAssignments)
      = Some (Inl (AmbiguousMatch
                (''Found 2 occurrences of the text in f.txt. The text must be unique. ''
                 @ ''Please provide more context to make it unique, or use all: true to replace all.'')),
              \<lparr>disk = [''/w/f.txt'' \<mapsto> twoAssignments],
               trace = [Resolve ''f.txt'' ''/w'', Exists ''/w/f.txt'', ReadText ''/w/f.txt'']\<rparr>)"
    using th unfolding exampleEditDiff_def [symmetric] n m example_read .
  show ?thesis
    using example_path example_disk h3 example_normalize n e by (intro conjI)
qed

lemma example_strip_any: "fst (stripBom exampleEditDiff ''a'') = []"
  by code_simp

theorem no_effective_change_rejected_witness:
  "\<not> endsWith (path (editOf ''b'' ''b'' None)) ''.ipynb''
   \<and> disk (worldWith threeLines) (exampleResolve (path (editOf ''b'' ''b'' None)) ''/w'')
       = Some threeLines
   \<and> stripBom exampleEditDiff threeLines = ([], threeLines)
   \<and> replaceStage exampleEditDiff True (path (editOf ''b'' ''b'' None))
         (all (editOf ''b'' ''b'' None)) (normalizeToLF exampleEditDiff threeLines)
         (normalizeToLF exampleEditDiff (oldText (editOf ''b'' ''b'' None)))
         (normalizeToLF exampleEditDiff (newText (editOf ''b'' ''b'' None)))
       = Some (Inr (threeLines, 1))
   \<and> threeLines = normalizeToLF exampleEditDiff threeLines
   \<and> execute exampleEditDiff exampleResolve writeOnly ''/w'' True (editOf ''b'' ''b'' None)
        (worldWith threeLines)
      = Some (Inl (NoEffectiveChange (noChangeMessage ''f.txt'')),
              \<lparr>disk = [''/w/f.txt'' \<mapsto> threeLines],
               trace = [Resolve ''f.txt'' ''/w'', Exists ''/w/f.txt'', ReadText ''/w/f.txt'']\<rparr>)"
proof -
  let ?args = "editOf ''b'' ''b'' None"
  have h3: "stripBom exampleEditDiff threeLines = ([], threeLines)" by code_simp
  have h4: "replaceStage exampleEditDiff True (path ?args) (all ?args)
         (normalizeToLF exampleEditDiff threeLines)
         (normalizeToLF exampleEditDiff (oldText ?args))
         (normalizeToLF exampleEditDiff (newText ?args))
       = Some (Inr (threeLines, 1))"
    by code_simp
  have same: "threeLines = normalizeToLF exampleEditDiff threeLines" by code_simp
  have p: "path ?args = ''f.txt''" by (simp add: editOf_def)
  note th = no_effective_change_rejected [where resolveToCwd = exampleResolve and cwd = "''/w''",
      OF example_path example_disk h3 h4, of writeOnly]
  from th same
  have "execute exampleEditDiff exampleResolve writeOnly ''/w'' True ?args (worldWith threeLines)
      = Some (Inl (NoEffectiveChange (noChangeMessage (path ?args))),
              logged (readEvents (path ?args) ''/w'' (exampleResolve (path ?args) ''/w''))
                (worldWith threeLines))"
    by blast
  then have e: "execute exampleEditDiff exampleResolve writeOnly ''/w'' True ?args
        (worldWith threeLines)
      = Some (Inl (NoEffectiveChange (noChangeMessage ''f.txt'')),
              \<lparr>disk = [''/w/f.txt'' \<mapsto> threeLines],
               trace = [Resolve ''f.txt'' ''/w'', Exists ''/w/f.txt'', ReadText ''/w/f.txt'']\<rparr>)"
    unfolding p example_resolve example_read' .
  show ?thesis
    using example_path example_disk h3 h4 same e by (intro conjI)
qed

text \<open>
  Claim C2 fails in replace-all mode. The file holds a, a tab, b; the search text
  is "a b" and the replacement is the content of the file. There is no exact
  occurrence; the approximate match is the whole content, and replacing it leaves
  the content as it was. With \<^verbatim>\<open>all: true\<close> the call never returns, so no no-change
  error is raised; the same edit in single mode is refused with the no-change
  error, after the read and before any write.
\<close>

theorem no_op_replace_all_not_rejected:
  "exactCount (normalizeToLF exampleEditDiff tabbed) (normalizeToLF exampleEditDiff ''a b'') = 0
   \<and> loopMatch exampleEditDiff True (normalizeToLF exampleEditDiff ''a b'')
        (normalizeToLF exampleEditDiff tabbed)
      = Some \<lparr>actualText = tabbed, startIndex = 0, confidence = 1\<rparr>
   \<and> splice (normalizeToLF exampleEditDiff tabbed)
        \<lparr>actualText = tabbed, startIndex = 0, confidence = 1\<rparr>
        (normalizeToLF exampleEditDiff tabbed)
      = normalizeToLF exampleEditDiff tabbed
   \<and> execute exampleEditDiff exampleResolve writeOnly ''/w'' True
        (editOf ''a b'' tabbed (Some True)) (worldWith tabbed) = None
   \<and> execute exampleEditDiff exampleResolve writeOnly ''/w'' True
        (editOf ''a b'' tabbed None) (worldWith tabbed)
      = Some (Inl (NoEffectiveChange (noChangeMessage ''f.txt'')),
              \<lparr>disk = [''/w/f.txt'' \<mapsto> tabbed],
               trace = [Resolve ''f.txt'' ''/w'', Exists ''/w/f.txt'', ReadText ''/w/f.txt'']\<rparr>)"
proof -
  let ?all = "editOf ''a b'' tabbed (Some True)"
  let ?one = "editOf ''a b'' tabbed None"
  let ?m = "\<lparr>actualText = tabbed, startIndex = 0, confidence = 1\<rparr>"
  have sb: "stripBom exampleEditDiff tabbed = ([], tabbed)" by code_simp
  have c0: "exactCount (normalizeToLF exampleEditDiff tabbed)
              (normalizeToLF exampleEditDiff ''a b'') = 0"
    by code_simp
  have m: "loopMatch exampleEditDiff True (normalizeToLF exampleEditDiff ''a b'')
             (normalizeToLF exampleEditDiff tabbed) = Some ?m"
    by code_simp
  have s: "splice (normalizeToLF exampleEditDiff tabbed) ?m (normalizeToLF exampleEditDiff tabbed)
             = normalizeToLF exampleEditDiff tabbed"
    by code_simp
  have f: "oldText ?all = ''a b''" "newText ?all = tabbed" "all ?all = Some True"
    by (simp_all add: editOf_def)
  have never: "execute exampleEditDiff exampleResolve writeOnly ''/w'' True ?all (worldWith tabbed)
      = None"
    by (rule execute_no_op_replace_all [where resolveToCwd = exampleResolve and cwd = "''/w''"
          and m = ?m, OF example_path example_disk sb])
       (simp_all add: f c0 m s)
  have st: "replaceStage exampleEditDiff True (path ?one) (all ?one)
              (normalizeToLF exampleEditDiff tabbed)
              (normalizeToLF exampleEditDiff (oldText ?one))
              (normalizeToLF exampleEditDiff (newText ?one))
            = Some (Inr (normalizeToLF exampleEditDiff tabbed, 1))"
    by code_simp
  have p: "path ?one = ''f.txt''" by (simp add: editOf_def)
  have "execute exampleEditDiff exampleResolve writeOnly ''/w'' True ?one (worldWith tabbed)
      = Some (finishEdit exampleEditDiff writeOnly (path ?one)
                (exampleResolve (path ?one) ''/w'') [] (detectLineEnding exampleEditDiff tabbed)
                (normalizeToLF exampleEditDiff tabbed) (normalizeToLF exampleEditDiff tabbed) 1
                (logged (readEvents (path ?one) ''/w'' (exampleResolve (path ?one) ''/w''))
                   (worldWith tabbed)))"
    unfolding execute_found [where resolveToCwd = exampleResolve and cwd = "''/w''",
          OF example_path example_disk sb] st by simp
  then have single:
    "execute exampleEditDiff exampleResolve writeOnly ''/w'' True ?one (worldWith tabbed)
      = Some (Inl (NoEffectiveChange (noChangeMessage ''f.txt'')),
              \<lparr>disk = [''/w/f.txt'' \<mapsto> tabbed],
               trace = [Resolve ''f.txt'' ''/w'', Exists ''/w/f.txt'', ReadText ''/w/f.txt'']\<rparr>)"
    unfolding finishEdit_same p example_resolve example_read' .
  show ?thesis using c0 m s never single by (intro conjI)
qed

theorem replace_all_exact_witness:
  "\<not> endsWith (path (editOf ''x=1'' ''x=2'' (Some True))) ''.ipynb''
   \<and> disk (worldWith twoAssignments)
        (exampleResolve (path (editOf ''x=1'' ''x=2'' (Some True))) ''/w'') = Some twoAssignments
   \<and> stripBom exampleEditDiff twoAssignments = ([], twoAssignments)
   \<and> all (editOf ''x=1'' ''x=2'' (Some True)) = Some True
   \<and> exactCount (normalizeToLF exampleEditDiff twoAssignments)
        (normalizeToLF exampleEditDiff (oldText (editOf ''x=1'' ''x=2'' (Some True)))) = 2
   \<and> replaceStage exampleEditDiff True (path (editOf ''x=1'' ''x=2'' (Some True)))
         (all (editOf ''x=1'' ''x=2'' (Some True)))
         (normalizeToLF exampleEditDiff twoAssignments)
         (normalizeToLF exampleEditDiff (oldText (editOf ''x=1'' ''x=2'' (Some True))))
         (normalizeToLF exampleEditDiff (newText (editOf ''x=1'' ''x=2'' (Some True))))
       = Some (Inr (twoAssignmentsDone, 2))
   \<and> specReplaceEvery ''x=1'' ''x=2'' twoAssignments = twoAssignmentsDone
   \<and> fst (the (execute exampleEditDiff exampleResolve writeOnly ''/w'' True
               (editOf ''x=1'' ''x=2'' (Some True)) (worldWith twoAssignments)))
      = Inr \<lparr>resultText = ''Successfully replaced 2 occurrences in f.txt.'',
             details = \<lparr>diff = [], firstChangedLine = None, diagnostics = None\<rparr>\<rparr>"
proof -
  let ?args = "editOf ''x=1'' ''x=2'' (Some True)"
  have h3: "stripBom exampleEditDiff twoAssignments = ([], twoAssignments)" by code_simp
  have h4: "all ?args = Some True" by (simp add: editOf_def)
  have n: "exactCount (normalizeToLF exampleEditDiff twoAssignments)
        (normalizeToLF exampleEditDiff (oldText ?args)) = 2"
    by code_simp
  then have h5: "0 < exactCount (normalizeToLF exampleEditDiff twoAssignments)
        (normalizeToLF exampleEditDiff (oldText ?args))"
    by simp
  have j: "jsJoin (jsSplit (normalizeToLF exampleEditDiff twoAssignments)
                     (normalizeToLF exampleEditDiff (oldText ?args)))
             (normalizeToLF exampleEditDiff (newText ?args)) = twoAssignmentsDone"
    by code_simp
  have o: "normalizeToLF exampleEditDiff (oldText ?args) = ''x=1''"
      "normalizeToLF exampleEditDiff (newText ?args) = ''x=2''"
      "normalizeToLF exampleEditDiff twoAssignments = twoAssignments"
    by code_simp+
  note th = replace_all_exact [where resolveToCwd = exampleResolve and cwd = "''/w''",
      OF example_path example_disk h3 h4 h5, of True writeOnly]
  have stage: "replaceStage exampleEditDiff True (path ?args) (all ?args)
         (normalizeToLF exampleEditDiff twoAssignments)
         (normalizeToLF exampleEditDiff (oldText ?args))
         (normalizeToLF exampleEditDiff (newText ?args))
       = Some (Inr (twoAssignmentsDone, 2))"
    using th unfolding j n by simp
  have "normalizeToLF exampleEditDiff (oldText ?args) \<noteq> []" by (simp add: o)
  with th have "jsJoin (jsSplit (normalizeToLF exampleEditDiff twoAssignments)
                     (normalizeToLF exampleEditDiff (oldText ?args)))
             (normalizeToLF exampleEditDiff (newText ?args))
          = specReplaceEvery (normalizeToLF exampleEditDiff (oldText ?args))
              (normalizeToLF exampleEditDiff (newText ?args))
              (normalizeToLF exampleEditDiff twoAssignments)"
    by blast
  then have "specReplaceEvery ''x=1'' ''x=2'' twoAssignments
               = jsJoin (jsSplit twoAssignments ''x=1'') ''x=2''"
    unfolding o by (rule sym)
  also have "\<dots> = twoAssignmentsDone" using j unfolding o .
  finally have every: "specReplaceEvery ''x=1'' ''x=2'' twoAssignments = twoAssignmentsDone" .
  from th have "execute exampleEditDiff exampleResolve writeOnly ''/w'' True ?args
            (worldWith twoAssignments) =
          Some (finishEdit exampleEditDiff writeOnly (path ?args)
                  (exampleResolve (path ?args) ''/w'') []
                  (detectLineEnding exampleEditDiff twoAssignments)
                  (normalizeToLF exampleEditDiff twoAssignments)
                  (jsJoin (jsSplit (normalizeToLF exampleEditDiff twoAssignments)
                     (normalizeToLF exampleEditDiff (oldText ?args)))
                     (normalizeToLF exampleEditDiff (newText ?args)))
                  (nat (exactCount (normalizeToLF exampleEditDiff twoAssignments)
                     (normalizeToLF exampleEditDiff (oldText ?args))))
                  (logged (readEvents (path ?args) ''/w'' (exampleResolve (path ?args) ''/w''))
                     (worldWith twoAssignments)))"
    by blast
  moreover have jj: "jsJoin (jsSplit twoAssignments ''x=1'') ''x=2'' = twoAssignmentsDone"
    by code_simp
  moreover have nn: "nat (exactCount twoAssignments ''x=1'') = 2"
    by code_simp
  moreover have pp: "path ?args = ''f.txt''" "exampleResolve ''f.txt'' ''/w'' = ''/w/f.txt''"
    by (simp_all add: editOf_def exampleResolve_def)
  ultimately have "fst (the (execute exampleEditDiff exampleResolve writeOnly ''/w'' True ?args
            (worldWith twoAssignments))) =
          fst (finishEdit exampleEditDiff writeOnly ''f.txt'' ''/w/f.txt'' []
                  (detectLineEnding exampleEditDiff twoAssignments) twoAssignments
                  twoAssignmentsDone 2
                  \<lparr>disk = [''/w/f.txt'' \<mapsto> twoAssignments],
                   trace = [Resolve ''f.txt'' ''/w'', Exists ''/w/f.txt'', ReadText ''/w/f.txt'']\<rparr>)"
    by (simp add: o example_read')
  also have "\<dots> = Inr \<lparr>resultText = ''Successfully replaced 2 occurrences in f.txt.'',
             details = \<lparr>diff = [], firstChangedLine = None, diagnostics = None\<rparr>\<rparr>"
    by code_simp
  finally have res: "fst (the (execute exampleEditDiff exampleResolve writeOnly ''/w'' True ?args
            (worldWith twoAssignments)))
      = Inr \<lparr>resultText = ''Successfully replaced 2 occurrences in f.txt.'',
             details = \<lparr>diff = [], firstChangedLine = None, diagnostics = None\<rparr>\<rparr>" .
  show ?thesis
    using example_path example_disk h3 h4 n stage every res by (intro conjI)
qed

text \<open>
  Claim C5 as stated fails: the file holds a, a tab, b; the search text is "a b"
  and the replacement is the content of the file. There is no exact occurrence, the
  approximate match is the whole content with confidence 1, and the replacement
  puts the same content back: the loop never leaves.
\<close>

theorem replace_all_loop_counterexample:
  "execute exampleEditDiff exampleResolve writeOnly ''/w'' True
     (editOf ''a b'' tabbed (Some True)) (worldWith tabbed) = None"
proof -
  let ?args = "editOf ''a b'' tabbed (Some True)"
  have sb: "stripBom exampleEditDiff tabbed = ([], tabbed)" by code_simp
  have o: "normalizeToLF exampleEditDiff (oldText ?args) = ''a b''"
      "normalizeToLF exampleEditDiff (newText ?args) = tabbed"
      "normalizeToLF exampleEditDiff tabbed = tabbed"
    by code_simp+
  have a: "all ?args = Some True" by (simp add: editOf_def)
  have c0: "\<not> 0 < exactCount tabbed ''a b''" by code_simp
  have m: "loopMatch exampleEditDiff True ''a b'' tabbed
             = Some \<lparr>actualText = tabbed, startIndex = 0, confidence = 1\<rparr>"
    by code_simp
  have s: "splice tabbed \<lparr>actualText = tabbed, startIndex = 0, confidence = 1\<rparr> tabbed = tabbed"
    by code_simp
  have "replaceStage exampleEditDiff True (path ?args) (all ?args) tabbed ''a b'' tabbed = None"
    using c0 fuzzyLoop_fixed_content [OF m s, of "path ?args" 0]
    by (simp add: replaceStage_def replaceAllMode_def a)
  then show ?thesis
    by (simp add: execute_found [where resolveToCwd = exampleResolve and cwd = "''/w''",
          OF example_path example_disk sb] o)
qed

theorem replace_all_fuzzy_outcome_witness:
  "\<not> endsWith (path (editOf ''a b'' ''ab'' (Some True))) ''.ipynb''
   \<and> disk (worldWith spaced) (exampleResolve (path (editOf ''a b'' ''ab'' (Some True))) ''/w'')
       = Some spaced
   \<and> stripBom exampleEditDiff spaced = ([], spaced)
   \<and> all (editOf ''a b'' ''ab'' (Some True)) = Some True
   \<and> exactCount (normalizeToLF exampleEditDiff spaced)
        (normalizeToLF exampleEditDiff (oldText (editOf ''a b'' ''ab'' (Some True)))) \<le> 0
   \<and> contentAfter exampleEditDiff True
        (normalizeToLF exampleEditDiff (oldText (editOf ''a b'' ''ab'' (Some True))))
        (normalizeToLF exampleEditDiff (newText (editOf ''a b'' ''ab'' (Some True))))
        1 (normalizeToLF exampleEditDiff spaced) = Some ''ab''
   \<and> loopMatch exampleEditDiff True
        (normalizeToLF exampleEditDiff (oldText (editOf ''a b'' ''ab'' (Some True)))) ''ab'' = None
   \<and> ''ab'' \<noteq> normalizeToLF exampleEditDiff spaced
   \<and> fst (the (execute exampleEditDiff exampleResolve writeOnly ''/w'' True
              (editOf ''a b'' ''ab'' (Some True)) (worldWith spaced)))
      = Inr \<lparr>resultText = ''Successfully replaced text in f.txt.'',
             details = \<lparr>diff = [], firstChangedLine = None, diagnostics = None\<rparr>\<rparr>
   \<and> disk (snd (the (execute exampleEditDiff exampleResolve writeOnly ''/w'' True
              (editOf ''a b'' ''ab'' (Some True)) (worldWith spaced)))) ''/w/f.txt''
      = Some ''ab''
   \<and> execute exampleEditDiff exampleResolve writeOnly ''/w'' True
          ((editOf ''xyz'' ''q'' (Some True))\<lparr>all := Some False\<rparr>) (worldWith ''abc'')
        = execute exampleEditDiff exampleResolve writeOnly ''/w'' True
            (editOf ''xyz'' ''q'' (Some True)) (worldWith ''abc'')
      \<and> fst (the (execute exampleEditDiff exampleResolve writeOnly ''/w'' True
            (editOf ''xyz'' ''q'' (Some True)) (worldWith ''abc'')))
        = Inl (NoMatch ''f.txt'' ''xyz''
                 (Some \<lparr>actualText = ''ab'', startIndex = 0, confidence = 0\<rparr>) True (19 / 20)
                 (Some 0))"
proof -
  let ?args = "editOf ''a b'' ''ab'' (Some True)"
  have h3: "stripBom exampleEditDiff spaced = ([], spaced)" by code_simp
  have h4: "all ?args = Some True" by (simp add: editOf_def)
  have h5: "exactCount (normalizeToLF exampleEditDiff spaced)
        (normalizeToLF exampleEditDiff (oldText ?args)) \<le> 0"
    by code_simp
  have h6: "contentAfter exampleEditDiff True
        (normalizeToLF exampleEditDiff (oldText ?args))
        (normalizeToLF exampleEditDiff (newText ?args))
        1 (normalizeToLF exampleEditDiff spaced) = Some ''ab''"
    by code_simp
  have h7: "loopMatch exampleEditDiff True
        (normalizeToLF exampleEditDiff (oldText ?args)) ''ab'' = None"
    by code_simp
  note th = replace_all_fuzzy_outcome [where resolveToCwd = exampleResolve and cwd = "''/w''",
      OF example_path example_disk h3 h4 h5 h6 h7, of writeOnly]
  have ne: "''ab'' \<noteq> normalizeToLF exampleEditDiff spaced"
    using th by simp
  have "execute exampleEditDiff exampleResolve writeOnly ''/w'' True ?args (worldWith spaced) =
          Some (writeAndReport exampleEditDiff writeOnly (path ?args)
                  (exampleResolve (path ?args) ''/w'') []
                  (detectLineEnding exampleEditDiff spaced)
                  (normalizeToLF exampleEditDiff spaced) ''ab'' 1
                  (logged (readEvents (path ?args) ''/w'' (exampleResolve (path ?args) ''/w''))
                     (worldWith spaced)))"
    using th by simp
  moreover have pp: "path ?args = ''f.txt''" by (simp add: editOf_def)
  ultimately have e: "the (execute exampleEditDiff exampleResolve writeOnly ''/w'' True ?args
            (worldWith spaced)) =
          writeAndReport exampleEditDiff writeOnly ''f.txt'' ''/w/f.txt'' []
                  (detectLineEnding exampleEditDiff spaced)
                  (normalizeToLF exampleEditDiff spaced) ''ab'' 1
                  \<lparr>disk = [''/w/f.txt'' \<mapsto> spaced],
                   trace = [Resolve ''f.txt'' ''/w'', Exists ''/w/f.txt'', ReadText ''/w/f.txt'']\<rparr>"
    by (simp add: example_resolve example_read')
  have r1: "fst (the (execute exampleEditDiff exampleResolve writeOnly ''/w'' True ?args
              (worldWith spaced)))
      = Inr \<lparr>resultText = ''Successfully replaced text in f.txt.'',
             details = \<lparr>diff = [], firstChangedLine = None, diagnostics = None\<rparr>\<rparr>"
    unfolding e by code_simp
  have r2: "disk (snd (the (execute exampleEditDiff exampleResolve writeOnly ''/w'' True ?args
              (worldWith spaced)))) ''/w/f.txt'' = Some ''ab''"
    unfolding e by code_simp

  let ?args0 = "editOf ''xyz'' ''q'' (Some True)"
  have g3: "stripBom exampleEditDiff ''abc'' = ([], ''abc'')" by code_simp
  have g4: "all ?args0 = Some True" by (simp add: editOf_def)
  have g5: "exactCount (normalizeToLF exampleEditDiff ''abc'')
        (normalizeToLF exampleEditDiff (oldText ?args0)) \<le> 0"
    by code_simp
  have g6: "contentAfter exampleEditDiff True
        (normalizeToLF exampleEditDiff (oldText ?args0))
        (normalizeToLF exampleEditDiff (newText ?args0))
        0 (normalizeToLF exampleEditDiff ''abc'') = Some ''abc''"
    by code_simp
  have g7: "loopMatch exampleEditDiff True
        (normalizeToLF exampleEditDiff (oldText ?args0)) ''abc'' = None"
    by code_simp
  have occ: "case occurrences (findEditMatch exampleEditDiff (normalizeToLF exampleEditDiff ''abc'')
                 (normalizeToLF exampleEditDiff (oldText ?args0)) True
                 (DEFAULT_FUZZY_THRESHOLD exampleEditDiff)) of
               None \<Rightarrow> True | Some n \<Rightarrow> n \<le> 1"
    by code_simp
  have err: "editMatchError exampleEditDiff True (path ?args0)
               (normalizeToLF exampleEditDiff (oldText ?args0))
               (findEditMatch exampleEditDiff (normalizeToLF exampleEditDiff ''abc'')
                 (normalizeToLF exampleEditDiff (oldText ?args0)) True
                 (DEFAULT_FUZZY_THRESHOLD exampleEditDiff))
             = NoMatch ''f.txt'' ''xyz''
              (Some \<lparr>actualText = ''ab'', startIndex = 0, confidence = 0\<rparr>) True (19 / 20)
              (Some 0)"
    by code_simp
  note th0 = replace_all_fuzzy_outcome [where resolveToCwd = exampleResolve and cwd = "''/w''",
      OF example_path example_disk g3 g4 g5 g6 g7, of writeOnly]
  have both: "execute exampleEditDiff exampleResolve writeOnly ''/w'' True ?args0 (worldWith ''abc'')
      = Some (Inl (editMatchError exampleEditDiff True (path ?args0)
               (normalizeToLF exampleEditDiff (oldText ?args0))
               (findEditMatch exampleEditDiff (normalizeToLF exampleEditDiff ''abc'')
                 (normalizeToLF exampleEditDiff (oldText ?args0)) True
                 (DEFAULT_FUZZY_THRESHOLD exampleEditDiff))),
              logged (readEvents (path ?args0) ''/w'' (exampleResolve (path ?args0) ''/w''))
                (worldWith ''abc''))
     \<and> ((case occurrences (findEditMatch exampleEditDiff (normalizeToLF exampleEditDiff ''abc'')
                 (normalizeToLF exampleEditDiff (oldText ?args0)) True
                 (DEFAULT_FUZZY_THRESHOLD exampleEditDiff)) of
               None \<Rightarrow> True | Some n \<Rightarrow> n \<le> 1) \<longrightarrow>
          execute exampleEditDiff exampleResolve writeOnly ''/w'' True
             (?args0\<lparr>all := Some False\<rparr>) (worldWith ''abc'')
           = execute exampleEditDiff exampleResolve writeOnly ''/w'' True ?args0 (worldWith ''abc''))"
    by (rule mp [OF th0 [THEN conjunct1] refl])
  from both occ have single: "execute exampleEditDiff exampleResolve writeOnly ''/w'' True
             (?args0\<lparr>all := Some False\<rparr>) (worldWith ''abc'')
           = execute exampleEditDiff exampleResolve writeOnly ''/w'' True ?args0 (worldWith ''abc'')"
    by blast
  from both have "fst (the (execute exampleEditDiff exampleResolve writeOnly ''/w'' True ?args0
        (worldWith ''abc'')))
      = Inl (editMatchError exampleEditDiff True (path ?args0)
               (normalizeToLF exampleEditDiff (oldText ?args0))
               (findEditMatch exampleEditDiff (normalizeToLF exampleEditDiff ''abc'')
                 (normalizeToLF exampleEditDiff (oldText ?args0)) True
                 (DEFAULT_FUZZY_THRESHOLD exampleEditDiff)))"
    by simp
  then have nomatch: "fst (the (execute exampleEditDiff exampleResolve writeOnly ''/w'' True ?args0
        (worldWith ''abc'')))
      = Inl (NoMatch ''f.txt'' ''xyz''
              (Some \<lparr>actualText = ''ab'', startIndex = 0, confidence = 0\<rparr>) True (19 / 20)
              (Some 0))"
    unfolding err .
  show ?thesis
    using example_path example_disk h3 h4 h5 h6 h7 ne r1 r2 single nomatch by (intro conjI)
qed

lemma no_match_example:
  "execute exampleEditDiff exampleResolve writeOnly ''/w'' True (editOf ''xyz'' ''q'' None)
     (worldWith ''abc'')
   = Some (Inl (NoMatch ''f.txt'' ''xyz''
                  (Some \<lparr>actualText = ''ab'', startIndex = 0, confidence = 0\<rparr>) True (19 / 20)
                  (Some 0)),
           \<lparr>disk = [''/w/f.txt'' \<mapsto> ''abc''],
            trace = [Resolve ''f.txt'' ''/w'', Exists ''/w/f.txt'', ReadText ''/w/f.txt'']\<rparr>)"
proof -
  let ?args = "editOf ''xyz'' ''q'' None"
  have sb: "stripBom exampleEditDiff ''abc'' = ([], ''abc'')" by code_simp
  have st: "replaceStage exampleEditDiff True (path ?args) (all ?args)
              (normalizeToLF exampleEditDiff ''abc'')
              (normalizeToLF exampleEditDiff (oldText ?args))
              (normalizeToLF exampleEditDiff (newText ?args))
            = Some (Inl (NoMatch ''f.txt'' ''xyz''
                  (Some \<lparr>actualText = ''ab'', startIndex = 0, confidence = 0\<rparr>) True (19 / 20)
                  (Some 0)))"
    by code_simp
  have pp: "path ?args = ''f.txt''" by (simp add: editOf_def)
  show ?thesis
    by (simp add: execute_found [where resolveToCwd = exampleResolve and cwd = "''/w''",
          OF example_path example_disk sb] st)
       (simp add: pp example_resolve example_read')
qed

theorem edit_error_atomic_witness:
  "execute exampleEditDiff exampleResolve writeOnly ''/w'' True (editOf ''xyz'' ''q'' None)
     (worldWith ''abc'')
   = Some (Inl (NoMatch ''f.txt'' ''xyz''
                  (Some \<lparr>actualText = ''ab'', startIndex = 0, confidence = 0\<rparr>) True (19 / 20)
                  (Some 0)),
           \<lparr>disk = [''/w/f.txt'' \<mapsto> ''abc''],
            trace = [Resolve ''f.txt'' ''/w'', Exists ''/w/f.txt'', ReadText ''/w/f.txt'']\<rparr>)
   \<and> (\<forall>x. NoMatch ''f.txt'' ''xyz''
                  (Some \<lparr>actualText = ''ab'', startIndex = 0, confidence = 0\<rparr>) True (19 / 20)
                  (Some 0) \<noteq> CollaboratorFailure x)
   \<and> disk \<lparr>disk = [''/w/f.txt'' \<mapsto> ''abc''],
            trace = [Resolve ''f.txt'' ''/w'', Exists ''/w/f.txt'', ReadText ''/w/f.txt'']\<rparr>
       = disk (worldWith ''abc'')
   \<and> (\<exists>evs. trace \<lparr>disk = [''/w/f.txt'' \<mapsto> ''abc''],
            trace = [Resolve ''f.txt'' ''/w'', Exists ''/w/f.txt'', ReadText ''/w/f.txt'']\<rparr>
         = trace (worldWith ''abc'') @ evs \<and> (\<forall>p c. Writethrough p c \<notin> set evs))"
proof -
  have h2: "\<forall>x. NoMatch ''f.txt'' ''xyz''
                  (Some \<lparr>actualText = ''ab'', startIndex = 0, confidence = 0\<rparr>) True (19 / 20)
                  (Some 0) \<noteq> CollaboratorFailure x"
    by simp
  from edit_error_atomic [OF no_match_example h2]
  show ?thesis using no_match_example h2 by (intro conjI) blast+
qed

theorem fuzzy_loop_halts_iff_witness:
  "(\<exists>r. fuzzyLoop exampleEditDiff True ''f.txt'' ''a b'' ''ab'' spaced 0 = Some r)
   \<and> contentAfter exampleEditDiff True ''a b'' ''ab'' 1 spaced = Some ''ab''
   \<and> loopMatch exampleEditDiff True ''a b'' ''ab'' = None
   \<and> fuzzyLoop exampleEditDiff True ''f.txt'' ''a b'' tabbed tabbed 0 = None
   \<and> \<not> (\<exists>k c'. contentAfter exampleEditDiff True ''a b'' tabbed k tabbed = Some c'
              \<and> loopMatch exampleEditDiff True ''a b'' c' = None)"
proof -
  have a: "contentAfter exampleEditDiff True ''a b'' ''ab'' 1 spaced = Some ''ab''"
    by code_simp
  have b: "loopMatch exampleEditDiff True ''a b'' ''ab'' = None"
    by code_simp
  have halts: "\<exists>r. fuzzyLoop exampleEditDiff True ''f.txt'' ''a b'' ''ab'' spaced 0 = Some r"
    using fuzzy_loop_halts_iff [of exampleEditDiff True "''f.txt''" "''a b''" "''ab''" spaced 0]
      a b by blast
  have m: "loopMatch exampleEditDiff True ''a b'' tabbed
             = Some \<lparr>actualText = tabbed, startIndex = 0, confidence = 1\<rparr>"
    by code_simp
  have s: "splice tabbed \<lparr>actualText = tabbed, startIndex = 0, confidence = 1\<rparr> tabbed = tabbed"
    by code_simp
  have runs: "fuzzyLoop exampleEditDiff True ''f.txt'' ''a b'' tabbed tabbed 0 = None"
    using m s by (rule fuzzyLoop_fixed_content)
  then have never: "\<not> (\<exists>k c'. contentAfter exampleEditDiff True ''a b'' tabbed k tabbed = Some c'
              \<and> loopMatch exampleEditDiff True ''a b'' c' = None)"
    using fuzzy_loop_halts_iff [of exampleEditDiff True "''f.txt''" "''a b''" tabbed tabbed 0]
    by simp
  show ?thesis using halts a b runs never by (intro conjI)
qed

end
